theory Spec2Isabelle
  imports Main "HOL-Library.Word"
begin

section \<open>Dictionary unification and transposition (arrow/array/dict\_internal.cc)\<close>

text \<open>
  A shallow embedding of \<^verbatim>\<open>DictionaryUnifierImpl\<close> (\<^verbatim>\<open>Unify\<close>, \<^verbatim>\<open>GetResult\<close>) and of
  \<^verbatim>\<open>DictionaryArray::Transpose\<close> with its helpers. A C++ member written with a trailing
  underscore (\<^verbatim>\<open>pool_\<close>, \<^verbatim>\<open>memo_table_\<close>) has a prime here (\<open>pool'\<close>, \<open>memo_table'\<close>).
  Status messages are left out: a \<^verbatim>\<open>Status\<close> is its code.
\<close>

subsection \<open>Status codes, types, the memory pool\<close>

datatype StatusCode = Invalid | TypeError | NotImplemented | OutOfMemory

text \<open>
  What a call can end in besides a result: a returned \<^verbatim>\<open>Status\<close>, or a read or write
  that C++ leaves undefined (through a null pointer, outside a buffer).
\<close>

datatype failure = Status StatusCode | NullPointer | OutOfBounds

text \<open>
  \<^verbatim>\<open>Type::type\<close>: the ids the source names, and \<open>OTHER k\<close> for every other id of the
  enumeration (declared in arrow/type.h).
\<close>

datatype Type = INT8 | INT16 | INT32 | INT64 | DICTIONARY | OTHER nat

text \<open>
  The index type of a dictionary type is used through \<^verbatim>\<open>FixedWidthType\<close> (\<^verbatim>\<open>id()\<close>,
  \<^verbatim>\<open>bit_width()\<close>): the four signed integer types the source dispatches on, and
  \<open>OtherFixedWidthType k w\<close> for any other fixed-width type, of id \<open>OTHER k\<close> and
  \<open>w\<close> bits, which the source's \<^verbatim>\<open>default:\<close> branches receive.
\<close>

datatype FixedWidthType =
  Int8Type | Int16Type | Int32Type | Int64Type | OtherFixedWidthType nat int

fun type_id :: "FixedWidthType \<Rightarrow> Type" where
  "type_id Int8Type = INT8"
| "type_id Int16Type = INT16"
| "type_id Int32Type = INT32"
| "type_id Int64Type = INT64"
| "type_id (OtherFixedWidthType k w) = OTHER k"

fun bit_width :: "FixedWidthType \<Rightarrow> int" where
  "bit_width Int8Type = 8"
| "bit_width Int16Type = 16"
| "bit_width Int32Type = 32"
| "bit_width Int64Type = 64"
| "bit_width (OtherFixedWidthType k w) = w"

datatype DataType =
  FixedWidth FixedWidthType
| Dictionary DictionaryType
| OtherDataType nat
and DictionaryType =
  DictionaryType (index_type: FixedWidthType) (value_type: DataType)

fun DataType_id :: "DataType \<Rightarrow> Type" where
  "DataType_id (FixedWidth t) = type_id t"
| "DataType_id (Dictionary d) = DICTIONARY"
| "DataType_id (OtherDataType k) = OTHER k"

text \<open>
  The memory pool is an external collaborator; the source only sees whether a request
  succeeds. It is a parameter: the pool answers each request with \<open>None\<close> (granted) or
  the code of the \<^verbatim>\<open>Status\<close> it returns. \<open>AllocateBytes n\<close> is \<^verbatim>\<open>AllocateBuffer(pool, n, ..)\<close>;
  \<open>GrowMemoTable n\<close> is the memo table (constructed on the pool) taking a new value when
  it holds \<open>n\<close>; \<open>DictionaryArrayData n\<close> is the materialisation of \<open>n\<close> values.
\<close>

datatype request = AllocateBytes int | GrowMemoTable nat | DictionaryArrayData nat

type_synonym MemoryPool = "request \<Rightarrow> StatusCode option"

definition default_memory_pool :: MemoryPool where
  "default_memory_pool = (\<lambda>r. None)"

text \<open>A buffer is its bytes. A fresh buffer's content is unspecified; the model fixes it to zero.\<close>

type_synonym Buffer = "8 word list"

definition AllocateBuffer :: "MemoryPool \<Rightarrow> int \<Rightarrow> StatusCode + Buffer" where
  "AllocateBuffer pool nbytes =
     (case pool (AllocateBytes nbytes) of
        Some e \<Rightarrow> Inl e
      | None \<Rightarrow> Inr (replicate (nat nbytes) 0))"

subsection \<open>Integers in a buffer\<close>

text \<open>
  A typed pointer into a buffer (\<^verbatim>\<open>reinterpret_cast<int32_t*>\<close>, \<^verbatim>\<open>GetValues<c_type>\<close>) reads
  and writes little-endian two's complement integers of \<open>w\<close> bytes.
\<close>

fun encode_le :: "nat \<Rightarrow> int \<Rightarrow> 8 word list" where
  "encode_le 0 v = []"
| "encode_le (Suc w) v = word_of_int v # encode_le w (v div 256)"

fun decode_le :: "8 word list \<Rightarrow> int" where
  "decode_le [] = 0"
| "decode_le (b # bs) = uint b + 256 * decode_le bs"

definition read_int :: "nat \<Rightarrow> Buffer \<Rightarrow> nat \<Rightarrow> int" where
  "read_int w buf i = signed_take_bit (8 * w - 1) (decode_le (take w (drop (i * w) buf)))"

definition int32_view :: "Buffer \<Rightarrow> 32 word list" where
  "int32_view buf = map (\<lambda>i. word_of_int (read_int 4 buf i)) [0..<length buf div 4]"

subsection \<open>Arrays as the unifier reads them\<close>

text \<open>
  \<^verbatim>\<open>const Array& dictionary\<close>, seen through \<^verbatim>\<open>type()\<close>, \<^verbatim>\<open>null_count()\<close>, \<^verbatim>\<open>length()\<close>
  and, after the cast to \<^verbatim>\<open>ArrayType\<close>, \<^verbatim>\<open>GetView(i)\<close>.
\<close>

record 'v Array =
  array_type :: DataType
  array_null_count :: int
  array_values :: "'v list"

definition array_length :: "'v Array \<Rightarrow> nat" where
  "array_length a = length (array_values a)"

definition GetView :: "'v Array \<Rightarrow> nat \<Rightarrow> 'v" where
  "GetView a i = array_values a ! i"

subsection \<open>The memo table\<close>

text \<open>
  Modelled from the spec: the memo table (arrow/util/hashing.h) is not among the sources.
  Section 4.1 of the spec: \<open>get_or_insert\<close> returns the existing id of a value seen
  before, else assigns the next sequential id, starting at 0, and records the value;
  \<open>size\<close> is the number of distinct values; the values materialise in id order.
  So the table is the list of its values in first-seen order, and an id is a position.
  The source checks the \<^verbatim>\<open>Status\<close> of every \<^verbatim>\<open>GetOrInsert\<close>: a new value is recorded only when
  the pool grants the growth.
\<close>

record 'v MemoTable =
  entries :: "'v list"

fun Lookup :: "'v list \<Rightarrow> 'v \<Rightarrow> nat option" where
  "Lookup [] v = None"
| "Lookup (x # xs) v = (if x = v then Some 0 else map_option Suc (Lookup xs v))"

definition GetOrInsert ::
  "MemoryPool \<Rightarrow> 'v \<Rightarrow> 'v MemoTable \<Rightarrow> StatusCode + (32 word \<times> 'v MemoTable)" where
  "GetOrInsert pool v mt =
     (case Lookup (entries mt) v of
        Some i \<Rightarrow> Inr (word_of_nat i, mt)
      | None \<Rightarrow>
          (case pool (GrowMemoTable (length (entries mt))) of
             Some e \<Rightarrow> Inl e
           | None \<Rightarrow> Inr (word_of_nat (length (entries mt)),
                          mt\<lparr>entries := entries mt @ [v]\<rparr>)))"

definition memo_size :: "'v MemoTable \<Rightarrow> int" where
  "memo_size mt = int (length (entries mt))"

text \<open>
  Modelled from the spec: \<^verbatim>\<open>DictTraits::GetDictionaryArrayData\<close> is not among the sources.
  It materialises the values in id order from \<open>start_offset\<close>, in an array of the value
  type without nulls, when the pool grants it.
\<close>

definition GetDictionaryArrayData ::
  "MemoryPool \<Rightarrow> DataType \<Rightarrow> 'v MemoTable \<Rightarrow> nat \<Rightarrow> StatusCode + 'v Array" where
  "GetDictionaryArrayData pool vtype mt start_offset =
     (case pool (DictionaryArrayData (length (entries mt) - start_offset)) of
        Some e \<Rightarrow> Inl e
      | None \<Rightarrow> Inr \<lparr>array_type = vtype, array_null_count = 0,
                     array_values = drop start_offset (entries mt)\<rparr>)"

subsection \<open>DictionaryUnifierImpl\<close>

record 'v DictionaryUnifierImpl =
  pool' :: MemoryPool
  value_type' :: DataType
  memo_table' :: "'v MemoTable"

definition make_DictionaryUnifierImpl :: "MemoryPool \<Rightarrow> DataType \<Rightarrow> 'v DictionaryUnifierImpl" where
  "make_DictionaryUnifierImpl pool vtype =
     \<lparr>pool' = pool, value_type' = vtype, memo_table' = \<lparr>entries = []\<rparr>\<rparr>"

text \<open>
  The loop of \<^verbatim>\<open>Unify\<close> that fills \<^verbatim>\<open>result_raw\<close>. It returns the status, the memo table
  as the loop leaves it, and the map: \<^verbatim>\<open>RETURN_NOT_OK\<close> leaves in the middle, with the
  values of the earlier positions in the table.
\<close>

function Unify_loop_out ::
  "MemoryPool \<Rightarrow> 'v Array \<Rightarrow> nat \<Rightarrow> 'v MemoTable \<Rightarrow> 32 word list
     \<Rightarrow> StatusCode option \<times> 'v MemoTable \<times> 32 word list" where
  "Unify_loop_out pool vals i mt result_raw =
     (if i < array_length vals then
        (case GetOrInsert pool (GetView vals i) mt of
           Inl e \<Rightarrow> (Some e, mt, result_raw)
         | Inr (memo_index, mt') \<Rightarrow>
             Unify_loop_out pool vals (Suc i) mt' (result_raw[i := memo_index]))
      else (None, mt, result_raw))"
  by pat_completeness auto
termination
  by (relation "measure (\<lambda>(pool, vals, i, mt, r). array_length vals - i)") auto

declare Unify_loop_out.simps [simp del]

text \<open>The loop of the call without a map (\<^verbatim>\<open>out == nullptr\<close>).\<close>

function Unify_loop_unused ::
  "MemoryPool \<Rightarrow> 'v Array \<Rightarrow> nat \<Rightarrow> 'v MemoTable \<Rightarrow> StatusCode option \<times> 'v MemoTable" where
  "Unify_loop_unused pool vals i mt =
     (if i < array_length vals then
        (case GetOrInsert pool (GetView vals i) mt of
           Inl e \<Rightarrow> (Some e, mt)
         | Inr (unused_memo_index, mt') \<Rightarrow> Unify_loop_unused pool vals (Suc i) mt')
      else (None, mt))"
  by pat_completeness auto
termination
  by (relation "measure (\<lambda>(pool, vals, i, mt). array_length vals - i)") auto

declare Unify_loop_unused.simps [simp del]

text \<open>
  \<^verbatim>\<open>Unify(dictionary, out)\<close>: \<open>want_out\<close> is \<^verbatim>\<open>out != nullptr\<close>. The result is the status
  (\<open>Inl\<close> the code of a failure, \<open>Inr\<close> the map written to \<^verbatim>\<open>*out\<close>, if any) and the
  unifier after the call.
\<close>

definition Unify ::
  "'v Array \<Rightarrow> bool \<Rightarrow> 'v DictionaryUnifierImpl
     \<Rightarrow> (StatusCode + 32 word list option) \<times> 'v DictionaryUnifierImpl" where
  "Unify dictionary want_out u =
     (if array_null_count dictionary > 0 then (Inl Invalid, u)
      else if array_type dictionary \<noteq> value_type' u then (Inl Invalid, u)
      else if want_out then
        (case AllocateBuffer (pool' u) (int (array_length dictionary) * 4) of
           Inl e \<Rightarrow> (Inl e, u)
         | Inr result \<Rightarrow>
             (case Unify_loop_out (pool' u) dictionary 0 (memo_table' u) (int32_view result) of
                (Some e, mt, result_raw) \<Rightarrow> (Inl e, u\<lparr>memo_table' := mt\<rparr>)
              | (None, mt, result_raw) \<Rightarrow> (Inr (Some result_raw), u\<lparr>memo_table' := mt\<rparr>)))
      else
        (case Unify_loop_unused (pool' u) dictionary 0 (memo_table' u) of
           (Some e, mt) \<Rightarrow> (Inl e, u\<lparr>memo_table' := mt\<rparr>)
         | (None, mt) \<Rightarrow> (Inr None, u\<lparr>memo_table' := mt\<rparr>)))"

text \<open>
  \<^verbatim>\<open>GetResult\<close>. \<open>GetResult_index_type\<close> is its choice of \<^verbatim>\<open>index_type\<close> from
  \<^verbatim>\<open>dict_length\<close>, the chain of comparisons with \<^verbatim>\<open>std::numeric_limits<..>::max()\<close>.
  \<^verbatim>\<open>*out_type\<close> is assigned before the dictionary is materialised, so the type is
  returned in any case, and the dictionary or the failing status beside it.
\<close>

definition GetResult_index_type :: "int \<Rightarrow> FixedWidthType" where
  "GetResult_index_type dict_length =
     (if dict_length \<le> 127 then Int8Type
      else if dict_length \<le> 32767 then Int16Type
      else if dict_length \<le> 2147483647 then Int32Type
      else Int64Type)"

definition GetResult ::
  "'v DictionaryUnifierImpl \<Rightarrow> DataType \<times> (StatusCode + 'v Array)" where
  "GetResult u =
     (let dict_length = memo_size (memo_table' u);
          index_type = GetResult_index_type dict_length;
          out_type = Dictionary (DictionaryType index_type (value_type' u))
      in (out_type, GetDictionaryArrayData (pool' u) (value_type' u) (memo_table' u) 0))"

subsection \<open>Buffers on the heap, bitmaps\<close>

text \<open>
  \<^verbatim>\<open>Transpose\<close> shares buffers between arrays, so buffers live in a heap: a
  \<^verbatim>\<open>shared_ptr<Buffer>\<close> is \<open>None\<close> (null) or the address of a buffer, its position in the
  heap's list, and a new buffer takes the next address. A raw pointer into a buffer is
  read through \<open>deref\<close>.
\<close>

type_synonym heap = "Buffer list"

definition deref :: "heap \<Rightarrow> nat option \<Rightarrow> failure + Buffer" where
  "deref h p =
     (case p of
        None \<Rightarrow> Inl NullPointer
      | Some a \<Rightarrow> if a < length h then Inr (h ! a) else Inl OutOfBounds)"

definition CHAR_BIT :: int where
  "CHAR_BIT = 8"

text \<open>\<^verbatim>\<open>BitUtil::GetBit\<close> and \<^verbatim>\<open>BitUtil::BytesForBits\<close>: bit \<open>i\<close> of a bitmap is bit \<open>i mod 8\<close> of byte \<open>i div 8\<close>.\<close>

definition GetBit :: "Buffer \<Rightarrow> nat \<Rightarrow> bool" where
  "GetBit bits i = bit (bits ! (i div 8)) (i mod 8)"

definition BytesForBits :: "nat \<Rightarrow> nat" where
  "BytesForBits n = (n + 7) div 8"

text \<open>The bitmap of a list of bits, the last byte padded with zero bits.\<close>

definition pack_bits :: "bool list \<Rightarrow> Buffer" where
  "pack_bits bs =
     map (\<lambda>k. horner_sum of_bool 2 (take 8 (drop (8 * k) bs))) [0..<BytesForBits (length bs)]"

text \<open>
  Modelled from the spec: \<^verbatim>\<open>CopyBitmap\<close> (arrow/util/bit_util.h) is not among the sources.
  Section 6 of the spec: \<open>copy_bitmap(src, bit_offset, length) -> buffer\<close>; section 4.4: the
  bitmap is copied and re-aligned to start at bit 0 of the new buffer. The routine reads
  its source through the raw pointer \<open>data\<close>: a null \<open>data\<close> is outside its contract and
  ends in \<open>NullPointer\<close>, a source that stops before bit \<open>offset + length\<close> in
  \<open>OutOfBounds\<close>. The new buffer, of \<open>BytesForBits length\<close> bytes, comes from the pool.
\<close>

definition CopyBitmap ::
  "MemoryPool \<Rightarrow> heap \<Rightarrow> nat option \<Rightarrow> nat \<Rightarrow> nat \<Rightarrow> failure + Buffer" where
  "CopyBitmap pool h data offset len =
     (case deref h data of
        Inl f \<Rightarrow> Inl f
      | Inr bits \<Rightarrow>
          if length bits < BytesForBits (offset + len) then Inl OutOfBounds
          else
            (case AllocateBuffer pool (int (BytesForBits len)) of
               Inl e \<Rightarrow> Inl (Status e)
             | Inr dest \<Rightarrow> Inr (pack_bits (map (\<lambda>i. GetBit bits (offset + i)) [0..<len]))))"

subsection \<open>ArrayData of a dictionary array\<close>

text \<open>
  \<^verbatim>\<open>data_\<close> of a \<^verbatim>\<open>DictionaryArray\<close>: its type is a dictionary type (\<^verbatim>\<open>dict_type_\<close>),
  \<^verbatim>\<open>buffers[0]\<close> is the null bitmap and \<^verbatim>\<open>buffers[1]\<close> holds the indices, and
  \<^verbatim>\<open>null_bitmap_data_\<close> points into \<^verbatim>\<open>buffers[0]\<close>, or is null when there is none.
\<close>

record 'v ArrayData =
  data_type :: DictionaryType
  data_length :: nat
  data_buffers :: "nat option list"
  data_null_count :: int
  data_offset :: nat
  data_dictionary :: "'v Array option"

definition ArrayData_Make ::
  "DictionaryType \<Rightarrow> nat \<Rightarrow> nat option list \<Rightarrow> int \<Rightarrow> nat \<Rightarrow> 'v ArrayData" where
  "ArrayData_Make t len bufs null_count offset =
     \<lparr>data_type = t, data_length = len, data_buffers = bufs, data_null_count = null_count,
      data_offset = offset, data_dictionary = None\<rparr>"

definition dict_type' :: "'v ArrayData \<Rightarrow> DictionaryType" where
  "dict_type' self = data_type self"

definition null_bitmap_data' :: "'v ArrayData \<Rightarrow> nat option" where
  "null_bitmap_data' self = data_buffers self ! 0"

text \<open>
  Modelled from the spec: the reads of the array container (arrow/array.h) are not among
  the sources. Section 6: typed read access by position, null-bit test, offset and
  length. \<^verbatim>\<open>IsNull(i)\<close> tests bit \<open>i + offset\<close> of the bitmap, if there is one;
  \<open>GetIndex\<close> is the index at logical position \<open>i\<close>, read at \<open>offset + i\<close> in
  \<^verbatim>\<open>buffers[1]\<close>, when the index type is one of the four signed integer types.
\<close>

fun c_type_size :: "Type \<Rightarrow> nat option" where
  "c_type_size INT8 = Some 1"
| "c_type_size INT16 = Some 2"
| "c_type_size INT32 = Some 4"
| "c_type_size INT64 = Some 8"
| "c_type_size DICTIONARY = None"
| "c_type_size (OTHER k) = None"



subsection \<open>DictionaryArray::Transpose\<close>

function IsTrivialTransposition_loop :: "32 word list \<Rightarrow> nat \<Rightarrow> nat \<Rightarrow> failure + bool" where
  "IsTrivialTransposition_loop transpose_map input_dict_size i =
     (if i < input_dict_size then
        (if length transpose_map \<le> i then Inl OutOfBounds
         else if sint (transpose_map ! i) \<noteq> int i then Inr False
         else IsTrivialTransposition_loop transpose_map input_dict_size (Suc i))
      else Inr True)"
  by pat_completeness auto
termination
  by (relation "measure (\<lambda>(m, n, i). n - i)") auto

declare IsTrivialTransposition_loop.simps [simp del]

definition IsTrivialTransposition :: "32 word list \<Rightarrow> nat \<Rightarrow> failure + bool" where
  "IsTrivialTransposition transpose_map input_dict_size =
     IsTrivialTransposition_loop transpose_map input_dict_size 0"

text \<open>
  Modelled from the spec: \<^verbatim>\<open>internal::TransposeInts\<close> (arrow/util/int_util.h) is not among
  the sources. Section 4.4, step 3c: the value at \<open>i\<close> of the destination is
  \<open>transpose_map[v]\<close> for the source value \<open>v\<close> at \<open>i\<close>, cast to the output width. The call
  passes the two typed pointers, the length and the map, and no bitmap: every position is
  transposed, a null one too. \<open>src\<close> with \<open>src_start\<close> is the pointer
  \<^verbatim>\<open>GetValues<in_c_type>(1)\<close>, which stands \<open>offset\<close> values into the buffer, and \<open>dest\<close>
  with \<open>dest_start\<close> the pointer \<^verbatim>\<open>GetMutableValues<out_c_type>(1)\<close>. A read outside the
  source or the map, or a write outside the destination, ends in \<open>OutOfBounds\<close>.
\<close>

definition TransposeInts ::
  "nat \<Rightarrow> nat \<Rightarrow> Buffer \<Rightarrow> nat \<Rightarrow> Buffer \<Rightarrow> nat \<Rightarrow> nat \<Rightarrow> 32 word list
     \<Rightarrow> failure + Buffer" where
  "TransposeInts in_w out_w src src_start dest dest_start len transpose_map =
     (if length src < (src_start + len) * in_w then Inl OutOfBounds
      else if length dest < (dest_start + len) * out_w then Inl OutOfBounds
      else
        (let vs = map (\<lambda>i. read_int in_w src (src_start + i)) [0..<len]
         in if list_ex (\<lambda>v. v < 0 \<or> int (length transpose_map) \<le> v) vs then Inl OutOfBounds
            else Inr (take (dest_start * out_w) dest
                      @ concat (map (\<lambda>v. encode_le out_w (sint (transpose_map ! nat v))) vs)
                      @ drop ((dest_start + len) * out_w) dest)))"

text \<open>
  \<^verbatim>\<open>TransposeDictIndices<InType, OutType>\<close>, with the sizes of the two C types for the
  template arguments. \<^verbatim>\<open>MakeArray(out_data)\<close> wraps \<open>out_data\<close>; the model returns it.
\<close>

definition TransposeDictIndices ::
  "nat \<Rightarrow> nat \<Rightarrow> heap \<Rightarrow> 'v ArrayData \<Rightarrow> 32 word list \<Rightarrow> 'v ArrayData
     \<Rightarrow> failure + ('v ArrayData \<times> heap)" where
  "TransposeDictIndices in_w out_w h in_data transpose_map out_data =
     (case deref h (data_buffers in_data ! 1) of
        Inl f \<Rightarrow> Inl f
      | Inr src \<Rightarrow>
          (case data_buffers out_data ! 1 of
             None \<Rightarrow> Inl NullPointer
           | Some a \<Rightarrow>
               (case deref h (Some a) of
                  Inl f \<Rightarrow> Inl f
                | Inr dest \<Rightarrow>
                    (case TransposeInts in_w out_w src (data_offset in_data) dest
                            (data_offset out_data) (data_length in_data) transpose_map of
                       Inl f \<Rightarrow> Inl f
                     | Inr dest' \<Rightarrow> Inr (out_data, h[a := dest'])))))"

text \<open>
  The null bitmap of the new array (\<^verbatim>\<open>// Shift null buffer if the original offset is
  non-zero\<close>): a copy from the pool, at the next address of the heap, when the offset is not
  zero, and \<^verbatim>\<open>buffers[0]\<close> itself otherwise.
\<close>

definition Transpose_null_bitmap ::
  "MemoryPool \<Rightarrow> heap \<Rightarrow> 'v ArrayData \<Rightarrow> failure + (nat option \<times> heap)" where
  "Transpose_null_bitmap pool h self =
     (if data_offset self \<noteq> 0 then
        (case CopyBitmap pool h (null_bitmap_data' self) (data_offset self) (data_length self) of
           Inl f \<Rightarrow> Inl f
         | Inr bitmap \<Rightarrow> Inr (Some (length h), h @ [bitmap]))
      else Inr (data_buffers self ! 0, h))"

text \<open>
  The default path of \<^verbatim>\<open>Transpose\<close> (from \<^verbatim>\<open>// Default path\<close> on): the buffer of the
  transposed indices, the null bitmap, \<open>out_data\<close>, and the dispatch on the two index
  type ids, the source's first.
\<close>

definition Transpose_default ::
  "MemoryPool \<Rightarrow> heap \<Rightarrow> 'v ArrayData \<Rightarrow> DictionaryType \<Rightarrow> 'v Array \<Rightarrow> 32 word list
     \<Rightarrow> failure + ('v ArrayData \<times> heap)" where
  "Transpose_default pool h self out_dict_type dictionary transpose_map =
     (let out_index_type = index_type out_dict_type;
          in_type_id = type_id (index_type (dict_type' self));
          out_type_id = type_id out_index_type
      in case AllocateBuffer pool
                (int (data_length self) * bit_width out_index_type * CHAR_BIT) of
           Inl e \<Rightarrow> Inl (Status e)
         | Inr buf \<Rightarrow>
             (let out_buffer = length h; h1 = h @ [buf]
              in case Transpose_null_bitmap pool h1 self of
                   Inl f \<Rightarrow> Inl f
                 | Inr (null_bitmap, h2) \<Rightarrow>
                     (let out_data =
                            (ArrayData_Make out_dict_type (data_length self)
                               [null_bitmap, Some out_buffer] (data_null_count self) 0)
                            \<lparr>data_dictionary := Some dictionary\<rparr>
                      in case c_type_size in_type_id of
                           None \<Rightarrow> Inl (Status NotImplemented)
                         | Some in_w \<Rightarrow>
                             (case c_type_size out_type_id of
                                None \<Rightarrow> Inl (Status NotImplemented)
                              | Some out_w \<Rightarrow>
                                  TransposeDictIndices in_w out_w h2 self transpose_map out_data))))"

text \<open>
  \<^verbatim>\<open>DictionaryArray::Transpose\<close> on the array \<open>self\<close>: the result is a failure, or the new
  array's data and the heap with the buffers the call allocated.
\<close>

definition Transpose ::
  "MemoryPool \<Rightarrow> heap \<Rightarrow> 'v ArrayData \<Rightarrow> DataType \<Rightarrow> 'v Array \<Rightarrow> 32 word list
     \<Rightarrow> failure + ('v ArrayData \<times> heap)" where
  "Transpose pool h self type dictionary transpose_map =
     (case type of
        Dictionary out_dict_type \<Rightarrow>
          (case data_dictionary self of
             None \<Rightarrow> Inl NullPointer
           | Some self_dictionary \<Rightarrow>
               (let in_dict_len = array_length self_dictionary;
                    out_index_type = index_type out_dict_type;
                    in_type_id = type_id (index_type (dict_type' self));
                    out_type_id = type_id out_index_type
                in case (if in_type_id = out_type_id
                         then IsTrivialTransposition transpose_map in_dict_len
                         else Inr False) of
                     Inl f \<Rightarrow> Inl f
                   | Inr True \<Rightarrow>
                       Inr ((ArrayData_Make out_dict_type (data_length self)
                               [data_buffers self ! 0, data_buffers self ! 1]
                               (data_null_count self) (data_offset self))
                            \<lparr>data_dictionary := Some dictionary\<rparr>, h)
                   | Inr False \<Rightarrow>
                       Transpose_default pool h self out_dict_type dictionary transpose_map))
      | _ \<Rightarrow> Inl (Status TypeError))"

subsection \<open>Reading the results\<close>

text \<open>
  A caller's sequence of \<^verbatim>\<open>Unify\<close> calls on one unifier, each with its dictionary and
  whether it asks for the map (\<^verbatim>\<open>out != nullptr\<close>): what the calls return, in order, up
  to the first failing call.
\<close>

fun Unify_calls ::
  "('v Array \<times> bool) list \<Rightarrow> 'v DictionaryUnifierImpl
     \<Rightarrow> (StatusCode + 32 word list option list) \<times> 'v DictionaryUnifierImpl" where
  "Unify_calls [] u = (Inr [], u)"
| "Unify_calls ((d, want_out) # calls) u =
     (case Unify d want_out u of
        (Inl e, u') \<Rightarrow> (Inl e, u')
      | (Inr out, u') \<Rightarrow>
          (case Unify_calls calls u' of
             (Inl e, u'') \<Rightarrow> (Inl e, u'')
           | (Inr outs, u'') \<Rightarrow> (Inr (out # outs), u'')))"

text \<open>
  The spec's first-seen order, stated on its own: the values of a sequence, each once,
  in the order of their first occurrences.
\<close>

fun first_seen :: "'v list \<Rightarrow> 'v list" where
  "first_seen [] = []"
| "first_seen (x # xs) = x # filter (\<lambda>y. y \<noteq> x) (first_seen xs)"

text \<open>\<^verbatim>\<open>std::numeric_limits<c_type>::max()\<close> of a signed index type of \<open>bit_width\<close> bits.\<close>

definition index_max :: "FixedWidthType \<Rightarrow> int" where
  "index_max t = 2 ^ nat (bit_width t - 1) - 1"

subsection \<open>Concrete inputs\<close>

definition utf8 :: DataType where
  "utf8 = OtherDataType 13"

definition string_array :: "string list \<Rightarrow> string Array" where
  "string_array vs = \<lparr>array_type = utf8, array_null_count = 0, array_values = vs\<rparr>"

definition string_unifier :: "string DictionaryUnifierImpl" where
  "string_unifier = make_DictionaryUnifierImpl default_memory_pool utf8"

definition int32_array :: "int list \<Rightarrow> int Array" where
  "int32_array vs =
     \<lparr>array_type = FixedWidth Int32Type, array_null_count = 0, array_values = vs\<rparr>"

definition int32_unifier :: "int DictionaryUnifierImpl" where
  "int32_unifier = make_DictionaryUnifierImpl default_memory_pool (FixedWidth Int32Type)"

text \<open>A pool that lets the memo table take one value and refuses the next.\<close>

definition one_value_pool :: MemoryPool where
  "one_value_pool =
     (\<lambda>q. case q of
        GrowMemoTable n \<Rightarrow> (if n < 1 then None else Some OutOfMemory)
      | _ \<Rightarrow> None)"


definition bitmap_readable :: "heap \<Rightarrow> 'v ArrayData \<Rightarrow> bool" where
  "bitmap_readable h d =
     (case data_buffers d ! 0 of
        None \<Rightarrow> True
      | Some a \<Rightarrow> a < length h \<and> BytesForBits (data_offset d + data_length d) \<le> length (h ! a))"



text \<open>
  An array of three int8 indices sliced at offset 1, with a null at its logical
  position 1, over the dictionary b, a, c: the bitmap is at address 0, the indices at 1.
\<close>

definition example_heap :: heap where
  "example_heap = [[11], [0, 0, 2, 1]]"

definition example_array :: "string ArrayData" where
  "example_array =
     \<lparr>data_type = DictionaryType Int8Type utf8, data_length = 3,
      data_buffers = [Some 0, Some 1], data_null_count = 1, data_offset = 1,
      data_dictionary = Some (string_array [''b'', ''a'', ''c''])\<rparr>"




section \<open>Properties of the unifier\<close>

subsection \<open>The memo table and the loops of Unify\<close>


lemma Lookup_Some: "Lookup xs v = Some j \<Longrightarrow> j < length xs \<and> xs ! j = v"
  by (induction xs arbitrary: j) (auto split: if_splits)

lemma Lookup_None: "Lookup xs v = None \<longleftrightarrow> v \<notin> set xs"
  by (induction xs) auto

lemma Lookup_append_Some: "Lookup xs v = Some j \<Longrightarrow> Lookup (xs @ ys) v = Some j"
  by (induction xs arbitrary: j) (auto split: if_splits)

lemma Lookup_append_new: "v \<notin> set xs \<Longrightarrow> Lookup (xs @ [v]) v = Some (length xs)"
  by (induction xs) auto

lemma Lookup_Some_mem: "Lookup xs v = Some j \<Longrightarrow> v \<in> set xs"
  using Lookup_None[of xs v] by auto

lemma set_first_seen: "set (first_seen xs) = set xs"
  by (induction xs) auto

lemma distinct_first_seen: "distinct (first_seen xs)"
  by (induction xs) (auto simp: set_first_seen)

lemma first_seen_filter: "filter P (first_seen xs) = first_seen (filter P xs)"
proof (induction xs)
  case Nil
  then show ?case by simp
next
  case (Cons x xs)
  show ?case
  proof (cases "P x")
    case True
    have "filter P (filter (\<lambda>y. y \<noteq> x) (first_seen xs)) = filter (\<lambda>y. y \<noteq> x) (filter P (first_seen xs))"
      by (simp add: conj_commute)
    with True Cons show ?thesis by simp
  next
    case False
    have "x \<notin> set (first_seen (filter P xs))"
      using False by (simp add: set_first_seen)
    then have "filter (\<lambda>y. y \<noteq> x) (first_seen (filter P xs)) = first_seen (filter P xs)"
      by (auto simp: filter_id_conv)
    moreover have "filter P (filter (\<lambda>y. y \<noteq> x) (first_seen xs)) = filter (\<lambda>y. y \<noteq> x) (filter P (first_seen xs))"
      by (simp add: conj_commute)
    ultimately show ?thesis using False Cons by simp
  qed
qed

lemma first_seen_append:
  "first_seen (xs @ ys) = first_seen xs @ first_seen (filter (\<lambda>y. y \<notin> set xs) ys)"
proof (induction xs arbitrary: ys)
  case Nil
  then show ?case by simp
next
  case (Cons x xs)
  have "filter (\<lambda>y. y \<noteq> x) (first_seen (filter (\<lambda>y. y \<notin> set xs) ys))
      = first_seen (filter (\<lambda>y. y \<notin> set (x # xs)) ys)"
    by (simp add: first_seen_filter conj_commute)
  with Cons show ?case by simp
qed

lemma first_seen_distinct: "distinct xs \<Longrightarrow> first_seen xs = xs"
  by (induction xs) (auto simp: filter_id_conv set_first_seen)

text \<open>One step of the interner.\<close>

lemma GetOrInsert_Inr:
  assumes "GetOrInsert pool v mt = Inr (idx, mt')"
  shows "entries mt' = entries mt @ first_seen (filter (\<lambda>y. y \<notin> set (entries mt)) [v])"
    and "\<exists>j. Lookup (entries mt') v = Some j \<and> idx = word_of_nat j"
  using assms
  by (auto simp: GetOrInsert_def Lookup_None Lookup_append_new dest: Lookup_Some_mem split: option.splits)

lemma Unify_loop_out_inv:
  assumes "Unify_loop_out pool vals i mt r = (st, mt', r')"
  shows "length r' = length r \<and> (\<exists>new. entries mt' = entries mt @ new) \<and>
     (st = None \<longrightarrow>
        entries mt' = entries mt @ first_seen (filter (\<lambda>y. y \<notin> set (entries mt)) (drop i (array_values vals)))
      \<and> (\<forall>k. i \<le> k \<and> k < array_length vals \<and> k < length r \<longrightarrow>
             (\<exists>j. Lookup (entries mt') (GetView vals k) = Some j \<and> r' ! k = word_of_nat j)))
     \<and> (\<forall>k<i. r' ! k = r ! k)"
  using assms
proof (induction pool vals i mt r rule: Unify_loop_out.induct)
  case (1 pool vals i mt r)
  show ?case
  proof (cases "i < array_length vals")
    case False
    with "1.prems" show ?thesis by (auto simp: array_length_def Unify_loop_out.simps[of pool vals i])
  next
    case True
    show ?thesis
    proof (cases "GetOrInsert pool (GetView vals i) mt")
      case (Inl e)
      with True "1.prems" show ?thesis by (auto simp: Unify_loop_out.simps[of pool vals i])
    next
      case (Inr p)
      obtain idx mt1 where p: "p = (idx, mt1)" by (cases p)
      from True Inr p "1.prems"
      have rec: "Unify_loop_out pool vals (Suc i) mt1 (r[i := idx]) = (st, mt', r')"
        by (simp add: Unify_loop_out.simps[of pool vals i])
      note IH = "1.IH"[OF True Inr p[symmetric] rec]
      from GetOrInsert_Inr[OF Inr[unfolded p]]
      have e1: "entries mt1 = entries mt @ first_seen (filter (\<lambda>y. y \<notin> set (entries mt)) [GetView vals i])"
        and l1: "\<exists>j. Lookup (entries mt1) (GetView vals i) = Some j \<and> idx = word_of_nat j" by auto
      from True have dr: "drop i (array_values vals) = GetView vals i # drop (Suc i) (array_values vals)"
        by (simp add: array_length_def GetView_def Cons_nth_drop_Suc)
      have len: "length r' = length r" using IH by simp
      have pre: "\<exists>new. entries mt' = entries mt @ new" using IH e1 by auto
      have old: "\<forall>k<i. r' ! k = r ! k" using IH by auto
      have ri: "r' ! i = (r[i := idx]) ! i" using IH by auto
      {
        assume st: "st = None"
        from IH st have e2: "entries mt' = entries mt1 @ first_seen (filter (\<lambda>y. y \<notin> set (entries mt1)) (drop (Suc i) (array_values vals)))"
          by simp
        have "entries mt' = entries mt @ first_seen (filter (\<lambda>y. y \<notin> set (entries mt)) ([GetView vals i] @ drop (Suc i) (array_values vals)))"
          unfolding e2 e1
          by (simp only: filter_append first_seen_append[of "filter _ [_]"] append_assoc set_append set_first_seen filter_filter Un_iff de_Morgan_disj)
        then have A: "entries mt' = entries mt @ first_seen (filter (\<lambda>y. y \<notin> set (entries mt)) (drop i (array_values vals)))"
          by (simp add: dr)
        have B: "\<forall>k. i \<le> k \<and> k < array_length vals \<and> k < length r \<longrightarrow>
             (\<exists>j. Lookup (entries mt') (GetView vals k) = Some j \<and> r' ! k = word_of_nat j)"
        proof (intro allI impI)
          fix k assume k: "i \<le> k \<and> k < array_length vals \<and> k < length r"
          show "\<exists>j. Lookup (entries mt') (GetView vals k) = Some j \<and> r' ! k = word_of_nat j"
          proof (cases "k = i")
            case True
            from l1 obtain j where j: "Lookup (entries mt1) (GetView vals i) = Some j" "idx = word_of_nat j" by auto
            from pre IH obtain new where "entries mt' = entries mt1 @ new" by auto
            with j have "Lookup (entries mt') (GetView vals i) = Some j" by (simp add: Lookup_append_Some)
            moreover have "r' ! i = idx" using ri k True by simp
            ultimately show ?thesis using True j by simp
          next
            case False
            with k have "Suc i \<le> k \<and> k < array_length vals \<and> k < length (r[i := idx])" by simp
            with IH st show ?thesis by blast
          qed
        qed
        note A B
      }
      with len pre old show ?thesis by blast
    qed
  qed
qed



lemma grow_step:
  assumes "E1 = E @ first_seen (filter (\<lambda>y. y \<notin> set E) [v])"
  shows "E1 @ first_seen (filter (\<lambda>y. y \<notin> set E1) rest) = E @ first_seen (filter (\<lambda>y. y \<notin> set E) (v # rest))"
proof -
  have "E @ first_seen (filter (\<lambda>y. y \<notin> set E) ([v] @ rest)) = E1 @ first_seen (filter (\<lambda>y. y \<notin> set E1) rest)"
    unfolding assms
    by (simp only: filter_append first_seen_append[of "filter _ [_]"] append_assoc set_append set_first_seen filter_filter Un_iff de_Morgan_disj)
  then show ?thesis by simp
qed

lemma Unify_loop_out_entries:
  assumes "Unify_loop_out pool vals i mt r = (st, mt', r')"
  shows "\<exists>n \<le> array_length vals - i.
           entries mt' = entries mt @ first_seen (filter (\<lambda>y. y \<notin> set (entries mt)) (take n (drop i (array_values vals))))
         \<and> (st = None \<longrightarrow> n = array_length vals - i)"
  using assms
proof (induction pool vals i mt r rule: Unify_loop_out.induct)
  case (1 pool vals i mt r)
  show ?case
  proof (cases "i < array_length vals")
    case False
    with "1.prems" show ?thesis by (auto simp: array_length_def Unify_loop_out.simps[of pool vals i])
  next
    case True
    show ?thesis
    proof (cases "GetOrInsert pool (GetView vals i) mt")
      case (Inl e)
      with True "1.prems" have "entries mt' = entries mt" "st \<noteq> None"
        by (auto simp: Unify_loop_out.simps[of pool vals i])
      then show ?thesis by (intro exI[of _ 0]) auto
    next
      case (Inr p)
      obtain idx mt1 where p: "p = (idx, mt1)" by (cases p)
      from True Inr p "1.prems"
      have rec: "Unify_loop_out pool vals (Suc i) mt1 (r[i := idx]) = (st, mt', r')"
        by (simp add: Unify_loop_out.simps[of pool vals i])
      from "1.IH"[OF True Inr p[symmetric] rec] obtain n where
        n: "n \<le> array_length vals - Suc i"
           "entries mt' = entries mt1 @ first_seen (filter (\<lambda>y. y \<notin> set (entries mt1)) (take n (drop (Suc i) (array_values vals))))"
           "st = None \<longrightarrow> n = array_length vals - Suc i" by blast
      from GetOrInsert_Inr(1)[OF Inr[unfolded p]]
      have e1: "entries mt1 = entries mt @ first_seen (filter (\<lambda>y. y \<notin> set (entries mt)) [GetView vals i])" .
      from True have dr: "drop i (array_values vals) = GetView vals i # drop (Suc i) (array_values vals)"
        by (simp add: array_length_def GetView_def Cons_nth_drop_Suc)
      have "entries mt' = entries mt @ first_seen (filter (\<lambda>y. y \<notin> set (entries mt)) (take (Suc n) (drop i (array_values vals))))"
        unfolding n(2) dr take_Suc_Cons by (rule grow_step[OF e1])
      moreover have "Suc n \<le> array_length vals - i" using n(1) True by simp
      moreover have "st = None \<longrightarrow> Suc n = array_length vals - i" using n(3) True by auto
      ultimately show ?thesis by blast
    qed
  qed
qed

lemma Unify_loop_unused_eq:
  "Unify_loop_unused pool vals i mt =
     (case Unify_loop_out pool vals i mt r of (st, mt', r') \<Rightarrow> (st, mt'))"
proof (induction pool vals i mt r rule: Unify_loop_out.induct)
  case (1 pool vals i mt r)
  show ?case
  proof (cases "i < array_length vals")
    case False
    then show ?thesis
      by (simp add: Unify_loop_out.simps[of pool vals i] Unify_loop_unused.simps[of pool vals i])
  next
    case True
    show ?thesis
    proof (cases "GetOrInsert pool (GetView vals i) mt")
      case (Inl e)
      with True show ?thesis
        by (simp add: Unify_loop_out.simps[of pool vals i] Unify_loop_unused.simps[of pool vals i])
    next
      case (Inr p)
      obtain idx mt1 where p: "p = (idx, mt1)" by (cases p)
      from "1.IH"[OF True Inr p[symmetric]] True Inr p show ?thesis
        by (simp add: Unify_loop_out.simps[of pool vals i] Unify_loop_unused.simps[of pool vals i])
    qed
  qed
qed

lemma Unify_loop_out_granted:
  assumes "\<forall>q. pool q = None"
  shows "fst (Unify_loop_out pool vals i mt r) = None"
  using assms
proof (induction pool vals i mt r rule: Unify_loop_out.induct)
  case (1 pool vals i mt r)
  show ?case
  proof (cases "i < array_length vals")
    case False
    then show ?thesis by (simp add: Unify_loop_out.simps[of pool vals i])
  next
    case True
    show ?thesis
    proof (cases "GetOrInsert pool (GetView vals i) mt")
      case (Inl e)
      then show ?thesis using "1.prems"
        by (auto simp: GetOrInsert_def split: option.splits)
    next
      case (Inr p)
      obtain idx mt1 where p: "p = (idx, mt1)" by (cases p)
      from "1.IH"[OF True Inr p[symmetric] "1.prems"] True Inr p show ?thesis
        by (simp add: Unify_loop_out.simps[of pool vals i])
    qed
  qed
qed



lemma length_int32_view_fresh: "length (int32_view (replicate (nat (int n * 4)) 0)) = n"
  by (simp add: int32_view_def nat_mult_distrib)

lemma Unify_map:
  assumes "Unify d True u = (Inr out, u')"
  shows "\<exists>r. out = Some r \<and> length r = array_length d \<and> pool' u' = pool' u \<and> value_type' u' = value_type' u
      \<and> entries (memo_table' u') = entries (memo_table' u) @
            first_seen (filter (\<lambda>y. y \<notin> set (entries (memo_table' u))) (array_values d))
      \<and> (\<forall>i<array_length d. \<exists>j. Lookup (entries (memo_table' u')) (GetView d i) = Some j \<and> r ! i = word_of_nat j)"
proof -
  define r0 where "r0 = int32_view (replicate (nat (int (array_length d) * 4)) 0)"
  obtain st mt r where loop: "Unify_loop_out (pool' u) d 0 (memo_table' u) r0 = (st, mt, r)"
    by (cases "Unify_loop_out (pool' u) d 0 (memo_table' u) r0") 
  from assms loop have st: "st = None" and out: "out = Some r" and u': "u' = u\<lparr>memo_table' := mt\<rparr>"
    by (auto simp: Unify_def AllocateBuffer_def r0_def split: if_splits option.splits sum.splits)
  have len0: "length r0 = array_length d" by (simp add: r0_def length_int32_view_fresh)
  from Unify_loop_out_inv[OF loop] st len0 
  have "length r = array_length d"
    and "entries mt = entries (memo_table' u) @ first_seen (filter (\<lambda>y. y \<notin> set (entries (memo_table' u))) (array_values d))"
    and "\<forall>k. k < array_length d \<longrightarrow> (\<exists>j. Lookup (entries mt) (GetView d k) = Some j \<and> r ! k = word_of_nat j)"
    by auto
  with out u' show ?thesis by simp
qed

lemma Unify_early_failure:
  "array_null_count d > 0 \<or> array_type d \<noteq> value_type' u \<Longrightarrow> Unify d w u = (Inl Invalid, u)"
  by (auto simp: Unify_def)

lemma Unify_granted:
  assumes "\<not> array_null_count d > 0" "array_type d = value_type' u" "\<forall>q. pool' u q = None"
  shows "\<exists>m. fst (Unify d w u) = Inr m"
proof (cases w)
  case True
  define r0 where "r0 = int32_view (replicate (nat (int (array_length d) * 4)) 0)"
  obtain st mt r where loop: "Unify_loop_out (pool' u) d 0 (memo_table' u) r0 = (st, mt, r)"
    by (cases "Unify_loop_out (pool' u) d 0 (memo_table' u) r0") 
  from Unify_loop_out_granted[OF assms(3), of d 0 "memo_table' u" r0] loop have "st = None" by simp
  with True assms loop show ?thesis
    by (simp add: Unify_def AllocateBuffer_def r0_def)
next
  case False
  define r0 where "r0 = ([] :: 32 word list)"
  obtain st mt r where loop: "Unify_loop_out (pool' u) d 0 (memo_table' u) r0 = (st, mt, r)"
    by (cases "Unify_loop_out (pool' u) d 0 (memo_table' u) r0") 
  from Unify_loop_out_granted[OF assms(3), of d 0 "memo_table' u" r0] loop have "st = None" by simp
  with False assms loop show ?thesis
    by (simp add: Unify_def Unify_loop_unused_eq[of _ _ _ _ r0])
qed

lemma Unify_error_entries:
  assumes "fst (Unify d w u) = Inl e"
  shows "\<exists>k \<le> array_length d.
           entries (memo_table' (snd (Unify d w u))) = entries (memo_table' u) @
             first_seen (filter (\<lambda>y. y \<notin> set (entries (memo_table' u))) (take k (array_values d)))"
proof -
  define r0 where "r0 = (if w then int32_view (replicate (nat (int (array_length d) * 4)) 0) else [])"
  obtain st mt r where loop: "Unify_loop_out (pool' u) d 0 (memo_table' u) r0 = (st, mt, r)"
    by (cases "Unify_loop_out (pool' u) d 0 (memo_table' u) r0") 
  from Unify_loop_out_entries[OF loop] obtain n where
    n: "n \<le> array_length d" "entries mt = entries (memo_table' u) @
             first_seen (filter (\<lambda>y. y \<notin> set (entries (memo_table' u))) (take n (array_values d)))"
    by auto
  have "snd (Unify d w u) = u \<or> snd (Unify d w u) = u\<lparr>memo_table' := mt\<rparr>"
    using loop
    by (auto simp: Unify_def r0_def AllocateBuffer_def Unify_loop_unused_eq[of _ _ _ _ "[]"] split: option.splits)
  then show ?thesis
  proof
    assume "snd (Unify d w u) = u"
    then show ?thesis by (intro exI[of _ 0]) simp
  next
    assume "snd (Unify d w u) = u\<lparr>memo_table' := mt\<rparr>"
    with n show ?thesis by (intro exI[of _ n]) simp
  qed
qed



lemma Unify_loop_out_failure:
  assumes "Unify_loop_out pool vals i mt r = (Some e, mt', r')"
  shows "\<exists>k. i \<le> k \<and> k < array_length vals
           \<and> entries mt' = entries mt @ first_seen (filter (\<lambda>y. y \<notin> set (entries mt))
                                (take (k - i) (drop i (array_values vals))))
           \<and> GetOrInsert pool (GetView vals k) mt' = Inl e"
  using assms
proof (induction pool vals i mt r rule: Unify_loop_out.induct)
  case (1 pool vals i mt r)
  show ?case
  proof (cases "i < array_length vals")
    case False
    with "1.prems" show ?thesis by (simp add: Unify_loop_out.simps[of pool vals i])
  next
    case True
    show ?thesis
    proof (cases "GetOrInsert pool (GetView vals i) mt")
      case (Inl e')
      with True "1.prems" have "mt' = mt" "e' = e"
        by (auto simp: Unify_loop_out.simps[of pool vals i])
      with Inl True show ?thesis by (intro exI[of _ i]) simp
    next
      case (Inr p)
      obtain idx mt1 where p: "p = (idx, mt1)" by (cases p)
      from True Inr p "1.prems"
      have rec: "Unify_loop_out pool vals (Suc i) mt1 (r[i := idx]) = (Some e, mt', r')"
        by (simp add: Unify_loop_out.simps[of pool vals i])
      from "1.IH"[OF True Inr p[symmetric] rec] obtain k where
        k: "Suc i \<le> k" "k < array_length vals"
           "entries mt' = entries mt1 @ first_seen (filter (\<lambda>y. y \<notin> set (entries mt1))
               (take (k - Suc i) (drop (Suc i) (array_values vals))))"
           "GetOrInsert pool (GetView vals k) mt' = Inl e" by blast
      from GetOrInsert_Inr(1)[OF Inr[unfolded p]]
      have e1: "entries mt1 = entries mt @ first_seen (filter (\<lambda>y. y \<notin> set (entries mt)) [GetView vals i])" .
      from True have dr: "drop i (array_values vals) = GetView vals i # drop (Suc i) (array_values vals)"
        by (simp add: array_length_def GetView_def Cons_nth_drop_Suc)
      from k(1) have ki: "k - i = Suc (k - Suc i)" by simp
      have "entries mt' = entries mt @ first_seen (filter (\<lambda>y. y \<notin> set (entries mt))
               (take (k - i) (drop i (array_values vals))))"
        unfolding k(3) dr ki take_Suc_Cons by (rule grow_step[OF e1])
      moreover have "i \<le> k" using k(1) by simp
      ultimately show ?thesis using k(2,4) by blast
    qed
  qed
qed

lemma Unify_interner_failure:
  assumes "\<not> array_null_count d > 0" "array_type d = value_type' u"
    and "w \<longrightarrow> pool' u (AllocateBytes (int (array_length d) * 4)) = None"
    and "fst (Unify d w u) = Inl e"
  shows "\<exists>k<array_length d.
           entries (memo_table' (snd (Unify d w u))) = entries (memo_table' u) @
             first_seen (filter (\<lambda>y. y \<notin> set (entries (memo_table' u))) (take k (array_values d)))
         \<and> GetOrInsert (pool' u) (GetView d k) (memo_table' (snd (Unify d w u))) = Inl e
         \<and> pool' (snd (Unify d w u)) = pool' u \<and> value_type' (snd (Unify d w u)) = value_type' u"
proof -
  define r0 where "r0 = (if w then int32_view (replicate (nat (int (array_length d) * 4)) 0) else [])"
  obtain st mt r where loop: "Unify_loop_out (pool' u) d 0 (memo_table' u) r0 = (st, mt, r)"
    by (cases "Unify_loop_out (pool' u) d 0 (memo_table' u) r0")
  from assms loop have st: "st = Some e" and u': "snd (Unify d w u) = u\<lparr>memo_table' := mt\<rparr>"
    by (auto simp: Unify_def r0_def AllocateBuffer_def Unify_loop_unused_eq[of _ _ _ _ "[]"]
             split: option.splits if_splits)
  from Unify_loop_out_failure[OF loop[unfolded st]] obtain k where
    k: "k < array_length d"
       "entries mt = entries (memo_table' u) @
             first_seen (filter (\<lambda>y. y \<notin> set (entries (memo_table' u))) (take k (array_values d)))"
       "GetOrInsert (pool' u) (GetView d k) mt = Inl e"
    by auto
  show ?thesis
    unfolding u' using k by (intro exI[of _ k]) simp
qed

lemma fst_GetResult:
  "fst (GetResult u) =
     Dictionary (DictionaryType (GetResult_index_type (memo_size (memo_table' u))) (value_type' u))"
  by (simp add: GetResult_def Let_def)

lemma Unify_success_entries:
  assumes "fst (Unify d w u) = Inr m"
  shows "entries (memo_table' (snd (Unify d w u))) = entries (memo_table' u) @
             first_seen (filter (\<lambda>y. y \<notin> set (entries (memo_table' u))) (array_values d))
         \<and> value_type' (snd (Unify d w u)) = value_type' u \<and> pool' (snd (Unify d w u)) = pool' u"
proof -
  define r0 where "r0 = (if w then int32_view (replicate (nat (int (array_length d) * 4)) 0) else [])"
  obtain st mt r where loop: "Unify_loop_out (pool' u) d 0 (memo_table' u) r0 = (st, mt, r)"
    by (cases "Unify_loop_out (pool' u) d 0 (memo_table' u) r0") 
  from assms loop have st: "st = None" and u': "snd (Unify d w u) = u\<lparr>memo_table' := mt\<rparr>"
    by (auto simp: Unify_def r0_def AllocateBuffer_def Unify_loop_unused_eq[of _ _ _ _ "[]"]
             split: option.splits if_splits)
  from Unify_loop_out_entries[OF loop] st
  have "entries mt = entries (memo_table' u) @
             first_seen (filter (\<lambda>y. y \<notin> set (entries (memo_table' u))) (array_values d))"
    by (auto simp: array_length_def)
  with u' show ?thesis by simp
qed

lemma Unify_distinct_fresh:
  assumes "distinct vs"
  shows "entries (memo_table' (snd (Unify (int32_array vs) w int32_unifier))) = vs"
proof -
  have "\<exists>m. fst (Unify (int32_array vs) w int32_unifier) = Inr m"
    by (rule Unify_granted)
       (simp_all add: int32_array_def int32_unifier_def make_DictionaryUnifierImpl_def default_memory_pool_def)
  then obtain m where "fst (Unify (int32_array vs) w int32_unifier) = Inr m" ..
  from Unify_success_entries[OF this] assms show ?thesis
    by (simp add: int32_array_def int32_unifier_def make_DictionaryUnifierImpl_def first_seen_distinct)
qed

lemma memo_size_128:
  "memo_size (memo_table' (snd (Unify (int32_array (map int [0..<128])) w int32_unifier))) = 128"
  by (simp add: Unify_distinct_fresh memo_size_def distinct_map)

lemma Unify_allocation_failure:
  "pool' u (AllocateBytes (int (array_length d) * 4)) \<noteq> None \<Longrightarrow> snd (Unify d True u) = u"
  by (auto simp: Unify_def AllocateBuffer_def)

lemma Unify_result:
  assumes "Unify d w u = (Inr out, u')"
  shows "entries (memo_table' u') = entries (memo_table' u) @
            first_seen (filter (\<lambda>y. y \<notin> set (entries (memo_table' u))) (array_values d))
      \<and> (\<not> w \<longrightarrow> out = None)
      \<and> (w \<longrightarrow> (\<exists>r. out = Some r \<and> length r = array_length d
            \<and> (\<forall>i<array_length d. \<exists>j. Lookup (entries (memo_table' u')) (GetView d i) = Some j
                    \<and> r ! i = word_of_nat j)))"
proof (cases w)
  case True
  with Unify_map[of d u out u'] assms show ?thesis by auto
next
  case False
  from assms have f: "fst (Unify d w u) = Inr out" and s: "snd (Unify d w u) = u'" by simp_all
  from Unify_success_entries[OF f] s
  have "entries (memo_table' u') = entries (memo_table' u) @
            first_seen (filter (\<lambda>y. y \<notin> set (entries (memo_table' u))) (array_values d))"
    by simp
  moreover from assms False have "out = None"
    by (auto simp: Unify_def Unify_loop_unused_eq[of _ _ _ _ "[]"] split: if_splits prod.splits option.splits)
  ultimately show ?thesis using False by simp
qed

lemma Unify_calls_maps:
  assumes "Unify_calls calls u0 = (Inr outs, u)"
  shows "length outs = length calls
     \<and> entries (memo_table' u) = entries (memo_table' u0) @
          first_seen (filter (\<lambda>y. y \<notin> set (entries (memo_table' u0)))
                        (concat (map (\<lambda>c. array_values (fst c)) calls)))
     \<and> (\<forall>k<length calls.
          (\<not> snd (calls ! k) \<longrightarrow> outs ! k = None)
        \<and> (snd (calls ! k) \<longrightarrow>
             (\<exists>m. outs ! k = Some m \<and> length m = array_length (fst (calls ! k)) \<and>
               (\<forall>i<array_length (fst (calls ! k)).
                  \<exists>j. Lookup (entries (memo_table' u)) (GetView (fst (calls ! k)) i) = Some j
                     \<and> m ! i = word_of_nat j))))"
  using assms
proof (induction calls arbitrary: u0 outs u)
  case Nil
  then show ?case by simp
next
  case (Cons c calls)
  obtain d w where c: "c = (d, w)" by (cases c)
  obtain res u1 where r1: "Unify d w u0 = (res, u1)" by (cases "Unify d w u0")
  with Cons.prems c obtain out where res: "res = Inr out" by (cases res) auto
  obtain res2 u2 where r2: "Unify_calls calls u1 = (res2, u2)" by (cases "Unify_calls calls u1")
  with Cons.prems r1 res c obtain outs' where res2: "res2 = Inr outs'" by (cases res2) auto
  from Cons.prems r1 res r2 res2 c
  have outs: "outs = out # outs'" and u: "u = u2" by auto
  note first = Unify_result[OF r1[unfolded res]]
  note IH = Cons.IH[OF r2[unfolded res2]]
  let ?E0 = "entries (memo_table' u0)" and ?E1 = "entries (memo_table' u1)"
    and ?E2 = "entries (memo_table' u2)"
  let ?vs = "concat (map (\<lambda>c. array_values (fst c)) calls)"
  from first have e1: "?E1 = ?E0 @ first_seen (filter (\<lambda>y. y \<notin> set ?E0) (array_values d))"
    by simp
  from IH have e2: "?E2 = ?E1 @ first_seen (filter (\<lambda>y. y \<notin> set ?E1) ?vs)" by simp
  have A: "length outs = length (c # calls)" using outs IH by simp
  have "?E2 = ?E0 @ first_seen (filter (\<lambda>y. y \<notin> set ?E0) (array_values d @ ?vs))"
    unfolding e2 e1
    by (simp only: filter_append first_seen_append[of "filter _ _"] append_assoc set_append
          set_first_seen filter_filter Un_iff de_Morgan_disj)
  then have B: "?E2 = ?E0 @ first_seen (filter (\<lambda>y. y \<notin> set ?E0)
                        (concat (map (\<lambda>c. array_values (fst c)) (c # calls))))"
    by (simp add: c)
  have C: "\<forall>k<length (c # calls).
          (\<not> snd ((c # calls) ! k) \<longrightarrow> outs ! k = None)
        \<and> (snd ((c # calls) ! k) \<longrightarrow>
             (\<exists>m. outs ! k = Some m \<and> length m = array_length (fst ((c # calls) ! k)) \<and>
               (\<forall>i<array_length (fst ((c # calls) ! k)).
                  \<exists>j. Lookup ?E2 (GetView (fst ((c # calls) ! k)) i) = Some j
                     \<and> m ! i = word_of_nat j)))"
  proof (intro allI impI)
    fix k assume k: "k < length (c # calls)"
    show "(\<not> snd ((c # calls) ! k) \<longrightarrow> outs ! k = None)
        \<and> (snd ((c # calls) ! k) \<longrightarrow>
             (\<exists>m. outs ! k = Some m \<and> length m = array_length (fst ((c # calls) ! k)) \<and>
               (\<forall>i<array_length (fst ((c # calls) ! k)).
                  \<exists>j. Lookup ?E2 (GetView (fst ((c # calls) ! k)) i) = Some j
                     \<and> m ! i = word_of_nat j)))"
    proof (cases k)
      case 0
      have "w \<longrightarrow> (\<exists>r. out = Some r \<and> length r = array_length d
            \<and> (\<forall>i<array_length d. \<exists>j. Lookup ?E2 (GetView d i) = Some j \<and> r ! i = word_of_nat j))"
      proof
        assume w
        with first obtain r where r: "out = Some r" "length r = array_length d"
          "\<forall>i<array_length d. \<exists>j. Lookup ?E1 (GetView d i) = Some j \<and> r ! i = word_of_nat j"
          by blast
        from r(3) e2 have "\<forall>i<array_length d. \<exists>j. Lookup ?E2 (GetView d i) = Some j \<and> r ! i = word_of_nat j"
          by (metis Lookup_append_Some)
        with r(1,2) show "\<exists>r. out = Some r \<and> length r = array_length d
            \<and> (\<forall>i<array_length d. \<exists>j. Lookup ?E2 (GetView d i) = Some j \<and> r ! i = word_of_nat j)"
          by blast
      qed
      moreover from first have "\<not> w \<longrightarrow> out = None" by simp
      ultimately show ?thesis using 0 outs c by simp
    next
      case (Suc k')
      from IH have "(\<not> snd (calls ! k') \<longrightarrow> outs' ! k' = None)
        \<and> (snd (calls ! k') \<longrightarrow>
             (\<exists>m. outs' ! k' = Some m \<and> length m = array_length (fst (calls ! k')) \<and>
               (\<forall>i<array_length (fst (calls ! k')).
                  \<exists>j. Lookup ?E2 (GetView (fst (calls ! k')) i) = Some j
                     \<and> m ! i = word_of_nat j)))"
        using k Suc by (elim conjE allE[of _ k']) simp
      with Suc outs show ?thesis by simp
    qed
  qed
  from A B C u show ?case by blast
qed



section \<open>The claims about the unifier\<close>

subsection \<open>C1: the maps of Unify\<close>

text \<open>
  The example of C1 as the claim gives it fails: on a fresh unifier, \<^verbatim>\<open>Unify\<close> of
  \<open>["b","a","c"]\<close> and then of \<open>["a","d"]\<close> returns the maps \<open>[0,1,2]\<close> and \<open>[1,3]\<close>,
  not \<open>[1,0,2]\<close> and \<open>[0,3]\<close>: ids follow the first-seen order b, a, c, d.
\<close>

theorem Unify_round_trip_maps_counterexample:
  "fst (Unify (string_array [''b'', ''a'', ''c'']) True string_unifier) = Inr (Some [0, 1, 2])
   \<and> fst (Unify (string_array [''a'', ''d'']) True
            (snd (Unify (string_array [''b'', ''a'', ''c'']) True string_unifier))) = Inr (Some [1, 3])
   \<and> [0, 1, 2] \<noteq> [1, 0, 2 :: 32 word] \<and> [1, 3] \<noteq> [0, 3 :: 32 word]"
  by code_simp

text \<open>
  C1 (amended): for every sequence of successful \<^verbatim>\<open>Unify\<close> calls on a fresh unifier, the
  memo table ends as the values of all the dictionaries in first-seen order, each once;
  a call that asks for no map returns none; and a call that asks for one returns a map as
  long as its dictionary which holds at every position \<open>i\<close> the position \<open>j\<close> of that value
  in the table, its dense 0-based id (so equal values have equal ids). In particular
  \<open>["b","a","c"]\<close> then \<open>["a","d"]\<close> give the maps \<open>[0,1,2]\<close> and \<open>[1,3]\<close> and the canonical
  dictionary b, a, c, d.
\<close>

theorem Unify_maps_record_interner_ids:
  "(Unify_calls calls (make_DictionaryUnifierImpl pool vtype) = (Inr outs, u) \<longrightarrow>
      length outs = length calls
    \<and> entries (memo_table' u) = first_seen (concat (map (\<lambda>c. array_values (fst c)) calls))
    \<and> distinct (entries (memo_table' u))
    \<and> (\<forall>k<length calls.
          (\<not> snd (calls ! k) \<longrightarrow> outs ! k = None)
        \<and> (snd (calls ! k) \<longrightarrow>
             (\<exists>m. outs ! k = Some m \<and> length m = array_length (fst (calls ! k)) \<and>
               (\<forall>i<array_length (fst (calls ! k)). \<exists>j<length (entries (memo_table' u)).
                  entries (memo_table' u) ! j = GetView (fst (calls ! k)) i
                  \<and> m ! i = word_of_nat j)))))
   \<and> fst (Unify_calls [(string_array [''b'', ''a'', ''c''], True), (string_array [''a'', ''d''], True)]
             string_unifier)
        = Inr [Some [0, 1, 2], Some [1, 3]]
   \<and> map_sum id array_values
        (snd (GetResult (snd (Unify_calls
            [(string_array [''b'', ''a'', ''c''], True), (string_array [''a'', ''d''], True)]
            string_unifier))))
        = Inr [''b'', ''a'', ''c'', ''d'']"
proof (intro conjI impI)
  assume run: "Unify_calls calls (make_DictionaryUnifierImpl pool vtype) = (Inr outs, u)"
  note all = Unify_calls_maps[OF run]
  from all show "length outs = length calls" by simp
  from all show fs: "entries (memo_table' u) = first_seen (concat (map (\<lambda>c. array_values (fst c)) calls))"
    by (simp add: make_DictionaryUnifierImpl_def)
  show "distinct (entries (memo_table' u))"
    unfolding fs by (rule distinct_first_seen)
  show "\<forall>k<length calls.
          (\<not> snd (calls ! k) \<longrightarrow> outs ! k = None)
        \<and> (snd (calls ! k) \<longrightarrow>
             (\<exists>m. outs ! k = Some m \<and> length m = array_length (fst (calls ! k)) \<and>
               (\<forall>i<array_length (fst (calls ! k)). \<exists>j<length (entries (memo_table' u)).
                  entries (memo_table' u) ! j = GetView (fst (calls ! k)) i
                  \<and> m ! i = word_of_nat j)))"
  proof (intro allI impI conjI)
    fix k assume k: "k < length calls" and "\<not> snd (calls ! k)"
    with all show "outs ! k = None" by blast
  next
    fix k assume k: "k < length calls" and w: "snd (calls ! k)"
    with all obtain m where m: "outs ! k = Some m" "length m = array_length (fst (calls ! k))"
      "\<forall>i<array_length (fst (calls ! k)).
          \<exists>j. Lookup (entries (memo_table' u)) (GetView (fst (calls ! k)) i) = Some j
             \<and> m ! i = word_of_nat j"
      by blast
    have "\<forall>i<array_length (fst (calls ! k)). \<exists>j<length (entries (memo_table' u)).
                  entries (memo_table' u) ! j = GetView (fst (calls ! k)) i
                  \<and> m ! i = word_of_nat j"
    proof (intro allI impI)
      fix i assume "i < array_length (fst (calls ! k))"
      with m(3) obtain j where
        j: "Lookup (entries (memo_table' u)) (GetView (fst (calls ! k)) i) = Some j"
           "m ! i = word_of_nat j"
        by blast
      from Lookup_Some[OF j(1)] j(2)
      show "\<exists>j<length (entries (memo_table' u)).
                  entries (memo_table' u) ! j = GetView (fst (calls ! k)) i
                  \<and> m ! i = word_of_nat j"
        by blast
    qed
    with m(1,2) show "\<exists>m. outs ! k = Some m \<and> length m = array_length (fst (calls ! k)) \<and>
               (\<forall>i<array_length (fst (calls ! k)). \<exists>j<length (entries (memo_table' u)).
                  entries (memo_table' u) ! j = GetView (fst (calls ! k)) i
                  \<and> m ! i = word_of_nat j)"
      by blast
  qed
next
  show "fst (Unify_calls [(string_array [''b'', ''a'', ''c''], True), (string_array [''a'', ''d''], True)]
             string_unifier)
        = Inr [Some [0, 1, 2], Some [1, 3]]"
    by code_simp
next
  show "map_sum id array_values
        (snd (GetResult (snd (Unify_calls
            [(string_array [''b'', ''a'', ''c''], True), (string_array [''a'', ''d''], True)]
            string_unifier))))
        = Inr [''b'', ''a'', ''c'', ''d'']"
    by code_simp
qed

theorem Unify_maps_record_interner_ids_witness:
  "entries (memo_table' (snd (Unify_calls
       [(string_array [''b'', ''a'', ''c''], True), (string_array [''a'', ''d''], False)]
       (make_DictionaryUnifierImpl default_memory_pool utf8))))
     = first_seen (concat (map (\<lambda>c. array_values (fst c))
         [(string_array [''b'', ''a'', ''c''], True), (string_array [''a'', ''d''], False)]))
   \<and> length [Some [0, 1, 2], None :: 32 word list option]
        = length [(string_array [''b'', ''a'', ''c''], True), (string_array [''a'', ''d''], False)]"
proof -
  let ?cs = "[(string_array [''b'', ''a'', ''c''], True), (string_array [''a'', ''d''], False)]"
  let ?u0 = "make_DictionaryUnifierImpl default_memory_pool utf8 :: string DictionaryUnifierImpl"
  have "fst (Unify_calls ?cs ?u0) = Inr [Some [0, 1, 2], None]"
    by code_simp
  then have run: "Unify_calls ?cs ?u0 = (Inr [Some [0, 1, 2], None], snd (Unify_calls ?cs ?u0))"
    by (simp add: prod_eq_iff)
  from Unify_maps_record_interner_ids[THEN conjunct1, rule_format, OF run]
  show ?thesis by simp
qed

subsection \<open>C4 and C5: the index type of GetResult\<close>

text \<open>
  The example of C4 fails: with 128 values in the memo table \<^verbatim>\<open>GetResult\<close> selects int16,
  although int8 can hold \<open>128 - 1\<close>: the source compares the size itself with the maximum.
\<close>

theorem GetResult_128_selects_int16_counterexample:
  "memo_size (memo_table' (snd (Unify (int32_array (map int [0..<128])) False int32_unifier))) = 128
   \<and> fst (GetResult (snd (Unify (int32_array (map int [0..<128])) False int32_unifier)))
       = Dictionary (DictionaryType Int16Type (FixedWidth Int32Type))
   \<and> (128 :: int) - 1 \<le> index_max Int8Type"
proof -
  let ?u = "snd (Unify (int32_array (map int [0..<128])) False int32_unifier)"
  have "\<exists>m. fst (Unify (int32_array (map int [0..<128])) False int32_unifier) = Inr m"
    by (rule Unify_granted)
       (simp_all add: int32_array_def int32_unifier_def make_DictionaryUnifierImpl_def
          default_memory_pool_def)
  then obtain m where "fst (Unify (int32_array (map int [0..<128])) False int32_unifier) = Inr m" ..
  from Unify_success_entries[OF this]
  have "value_type' ?u = FixedWidth Int32Type"
    by (simp add: int32_unifier_def make_DictionaryUnifierImpl_def)
  then show ?thesis
    by (simp add: fst_GetResult memo_size_128 GetResult_index_type_def index_max_def)
qed

text \<open>
  C4 (amended): for every size \<open>n\<close> of the memo table (an \<^verbatim>\<open>int64_t\<close>), \<^verbatim>\<open>GetResult\<close>
  selects the smallest index type among int8, int16, int32, int64 whose maximum value
  is greater than or equal to \<open>n\<close> itself; for \<open>n = 128\<close> the selection function gives int16.
\<close>

theorem GetResult_selects_smallest_index_type_holding_size:
  "(memo_size (memo_table' u) \<le> 9223372036854775807 \<longrightarrow>
     (\<exists>t. fst (GetResult u) = Dictionary (DictionaryType t (value_type' u))
        \<and> t \<in> {Int8Type, Int16Type, Int32Type, Int64Type}
        \<and> memo_size (memo_table' u) \<le> index_max t
        \<and> (\<forall>t' \<in> {Int8Type, Int16Type, Int32Type, Int64Type}.
              memo_size (memo_table' u) \<le> index_max t' \<longrightarrow> bit_width t \<le> bit_width t')))
   \<and> GetResult_index_type 128 = Int16Type"
proof (intro conjI impI)
  let ?n = "memo_size (memo_table' u)"
  assume "?n \<le> 9223372036854775807"
  then have "GetResult_index_type ?n \<in> {Int8Type, Int16Type, Int32Type, Int64Type}
      \<and> ?n \<le> index_max (GetResult_index_type ?n)
      \<and> (\<forall>t' \<in> {Int8Type, Int16Type, Int32Type, Int64Type}.
              ?n \<le> index_max t' \<longrightarrow> bit_width (GetResult_index_type ?n) \<le> bit_width t')"
    by (simp add: GetResult_index_type_def index_max_def)
  then show "\<exists>t. fst (GetResult u) = Dictionary (DictionaryType t (value_type' u))
        \<and> t \<in> {Int8Type, Int16Type, Int32Type, Int64Type}
        \<and> ?n \<le> index_max t
        \<and> (\<forall>t' \<in> {Int8Type, Int16Type, Int32Type, Int64Type}.
              ?n \<le> index_max t' \<longrightarrow> bit_width t \<le> bit_width t')"
    unfolding fst_GetResult by blast
next
  show "GetResult_index_type 128 = Int16Type"
    by (simp add: GetResult_index_type_def)
qed

theorem GetResult_selects_smallest_index_type_holding_size_witness:
  "memo_size (memo_table' (int32_unifier\<lparr>memo_table' := \<lparr>entries = [7, 8, 9]\<rparr>\<rparr>)) \<le> 9223372036854775807
   \<and> (\<exists>t. fst (GetResult (int32_unifier\<lparr>memo_table' := \<lparr>entries = [7, 8, 9]\<rparr>\<rparr>))
             = Dictionary (DictionaryType t (FixedWidth Int32Type))
          \<and> (3 :: int) \<le> index_max t \<and> bit_width t \<le> bit_width Int8Type)"
  using GetResult_selects_smallest_index_type_holding_size
          [THEN conjunct1, of "int32_unifier\<lparr>memo_table' := \<lparr>entries = [7, 8, 9]\<rparr>\<rparr>"]
  by (auto simp: memo_size_def int32_unifier_def make_DictionaryUnifierImpl_def index_max_def)

text \<open>
  C5: for every size \<open>n\<close> of the memo table (an \<^verbatim>\<open>int64_t\<close>), the index type of
  \<^verbatim>\<open>GetResult\<close> can represent \<open>n - 1\<close>; after unifying exactly 128 distinct values
  \<^verbatim>\<open>GetResult\<close> selects int16, not int8.
\<close>

theorem GetResult_index_type_addresses_dictionary:
  "(memo_size (memo_table' u) \<le> 9223372036854775807 \<longrightarrow>
      (\<exists>t. fst (GetResult u) = Dictionary (DictionaryType t (value_type' u))
           \<and> memo_size (memo_table' u) - 1 \<le> index_max t))
   \<and> fst (GetResult (snd (Unify (int32_array (map int [0..<128])) True int32_unifier)))
       = Dictionary (DictionaryType Int16Type (FixedWidth Int32Type))"
proof (intro conjI impI)
  assume "memo_size (memo_table' u) \<le> 9223372036854775807"
  then have "memo_size (memo_table' u) - 1 \<le> index_max (GetResult_index_type (memo_size (memo_table' u)))"
    by (simp add: GetResult_index_type_def index_max_def)
  then show "\<exists>t. fst (GetResult u) = Dictionary (DictionaryType t (value_type' u))
           \<and> memo_size (memo_table' u) - 1 \<le> index_max t"
    by (simp add: fst_GetResult)
next
  have "\<exists>m. fst (Unify (int32_array (map int [0..<128])) True int32_unifier) = Inr m"
    by (rule Unify_granted)
       (simp_all add: int32_array_def int32_unifier_def make_DictionaryUnifierImpl_def
          default_memory_pool_def)
  then obtain m where "fst (Unify (int32_array (map int [0..<128])) True int32_unifier) = Inr m" ..
  from Unify_success_entries[OF this]
  have "value_type' (snd (Unify (int32_array (map int [0..<128])) True int32_unifier)) = FixedWidth Int32Type"
    by (simp add: int32_unifier_def make_DictionaryUnifierImpl_def)
  then show "fst (GetResult (snd (Unify (int32_array (map int [0..<128])) True int32_unifier)))
       = Dictionary (DictionaryType Int16Type (FixedWidth Int32Type))"
    by (simp add: fst_GetResult memo_size_128 GetResult_index_type_def)
qed

theorem GetResult_index_type_addresses_dictionary_witness:
  "memo_size (memo_table' (snd (Unify (int32_array (map int [0..<128])) True int32_unifier)))
     \<le> 9223372036854775807
   \<and> (\<exists>t. fst (GetResult (snd (Unify (int32_array (map int [0..<128])) True int32_unifier)))
             = Dictionary (DictionaryType t
                 (value_type' (snd (Unify (int32_array (map int [0..<128])) True int32_unifier))))
           \<and> (128 :: int) - 1 \<le> index_max t)"
  using GetResult_index_type_addresses_dictionary
          [THEN conjunct1, of "snd (Unify (int32_array (map int [0..<128])) True int32_unifier)"]
  by (simp add: memo_size_128)

subsection \<open>C7: the failures of Unify\<close>

text \<open>
  C7 as stated fails: a dictionary without nulls whose type differs from the unifier's is
  refused with \<^verbatim>\<open>Status::Invalid\<close>, the very code of the refusal of nulls, not with a
  code of its own.
\<close>

theorem Unify_type_mismatch_is_Invalid_counterexample:
  "fst (Unify (int32_array [1, 2]\<lparr>array_null_count := 1\<rparr>) True int32_unifier) = Inl Invalid
   \<and> fst (Unify (int32_array [1, 2]\<lparr>array_type := FixedWidth Int64Type\<rparr>) True int32_unifier)
       = Inl Invalid"
  by code_simp

text \<open>
  C7 (amended): \<^verbatim>\<open>Unify\<close> fails with \<^verbatim>\<open>Invalid\<close> whenever the dictionary's null count is
  positive, and with the same \<^verbatim>\<open>Invalid\<close> whenever its type differs from the unifier's
  value type; in all other cases it succeeds, provided the pool grants every request
  (the map buffer and the growth of the memo table).
\<close>

theorem Unify_failures:
  "(array_null_count d > 0 \<longrightarrow> fst (Unify d want_out u) = Inl Invalid)
   \<and> (array_type d \<noteq> value_type' u \<longrightarrow> fst (Unify d want_out u) = Inl Invalid)
   \<and> (\<not> array_null_count d > 0 \<and> array_type d = value_type' u \<and> (\<forall>q. pool' u q = None)
        \<longrightarrow> (\<exists>m. fst (Unify d want_out u) = Inr m))"
proof (intro conjI impI)
  assume "array_null_count d > 0"
  then show "fst (Unify d want_out u) = Inl Invalid"
    by (simp add: Unify_early_failure)
next
  assume "array_type d \<noteq> value_type' u"
  then show "fst (Unify d want_out u) = Inl Invalid"
    by (simp add: Unify_early_failure)
next
  assume "\<not> array_null_count d > 0 \<and> array_type d = value_type' u \<and> (\<forall>q. pool' u q = None)"
  then show "\<exists>m. fst (Unify d want_out u) = Inr m"
    by (intro Unify_granted) simp_all
qed

theorem Unify_failures_witness:
  "fst (Unify (int32_array [1, 2]\<lparr>array_null_count := 1\<rparr>) True int32_unifier) = Inl Invalid
   \<and> fst (Unify (int32_array [1, 2]\<lparr>array_type := FixedWidth Int64Type\<rparr>) False int32_unifier)
       = Inl Invalid
   \<and> (\<exists>m. fst (Unify (int32_array [1, 2]) True int32_unifier) = Inr m)"
proof -
  have 1: "array_null_count (int32_array [1, 2]\<lparr>array_null_count := 1\<rparr>) > 0"
    by simp
  have 2: "array_type (int32_array [1, 2]\<lparr>array_type := FixedWidth Int64Type\<rparr>)
             \<noteq> value_type' int32_unifier"
    by (simp add: int32_unifier_def make_DictionaryUnifierImpl_def)
  have 3: "\<not> array_null_count (int32_array [1, 2]) > 0
           \<and> array_type (int32_array [1, 2]) = value_type' int32_unifier
           \<and> (\<forall>q. pool' int32_unifier q = None)"
    by (simp add: int32_array_def int32_unifier_def make_DictionaryUnifierImpl_def
          default_memory_pool_def)
  from Unify_failures[THEN conjunct1, rule_format, OF 1]
       Unify_failures[THEN conjunct2, THEN conjunct1, rule_format, OF 2]
       Unify_failures[THEN conjunct2, THEN conjunct2, rule_format, OF 3]
  show ?thesis by blast
qed

subsection \<open>C9: the memo table after a failed Unify\<close>

text \<open>
  C9 as stated fails: when the memo table refuses the second value of a dictionary,
  \<^verbatim>\<open>RETURN_NOT_OK\<close> leaves the loop with the first value already in the table.
\<close>

theorem Unify_failure_keeps_earlier_values_counterexample:
  "fst (Unify (string_array [''a'', ''b'']) True (make_DictionaryUnifierImpl one_value_pool utf8))
     = Inl OutOfMemory
   \<and> entries (memo_table' (make_DictionaryUnifierImpl one_value_pool utf8 :: string DictionaryUnifierImpl))
     = []
   \<and> entries (memo_table'
        (snd (Unify (string_array [''a'', ''b'']) True (make_DictionaryUnifierImpl one_value_pool utf8))))
     = [''a'']"
  by code_simp

text \<open>
  C9 (amended): when \<^verbatim>\<open>Unify\<close> returns an error from the refusal of nulls, of a different
  type, or of the allocation of the map, the unifier is unchanged. When it returns the
  error \<open>e\<close> from the loop, there is a position \<open>k\<close> of the dictionary, the failing one, at
  which the memo table as the call leaves it answers \<^verbatim>\<open>GetOrInsert\<close> with \<open>e\<close>: the table
  is its state before the call followed by the new values of the positions before \<open>k\<close>,
  in first-seen order, so the value of every position before \<open>k\<close> is in it and the value
  at \<open>k\<close> is not. In every case a value that had an id before the call keeps it.
\<close>

theorem Unify_failure_state:
  "(array_null_count d > 0 \<or> array_type d \<noteq> value_type' u
        \<or> (want_out \<and> pool' u (AllocateBytes (int (array_length d) * 4)) \<noteq> None)
      \<longrightarrow> (\<exists>e. fst (Unify d want_out u) = Inl e) \<and> snd (Unify d want_out u) = u)
   \<and> (\<not> array_null_count d > 0 \<and> array_type d = value_type' u
        \<and> (want_out \<longrightarrow> pool' u (AllocateBytes (int (array_length d) * 4)) = None)
        \<and> fst (Unify d want_out u) = Inl e
      \<longrightarrow> (\<exists>k<array_length d.
             GetOrInsert (pool' u) (GetView d k) (memo_table' (snd (Unify d want_out u))) = Inl e
           \<and> entries (memo_table' (snd (Unify d want_out u))) = entries (memo_table' u) @
               first_seen (filter (\<lambda>y. y \<notin> set (entries (memo_table' u))) (take k (array_values d)))
           \<and> (\<forall>j<k. GetView d j \<in> set (entries (memo_table' (snd (Unify d want_out u)))))
           \<and> GetView d k \<notin> set (entries (memo_table' (snd (Unify d want_out u))))
           \<and> pool' (snd (Unify d want_out u)) = pool' u
           \<and> value_type' (snd (Unify d want_out u)) = value_type' u))
   \<and> (fst (Unify d want_out u) = Inl e
      \<longrightarrow> (\<forall>v j. Lookup (entries (memo_table' u)) v = Some j
              \<longrightarrow> Lookup (entries (memo_table' (snd (Unify d want_out u)))) v = Some j))"
proof (intro conjI impI)
  assume "array_null_count d > 0 \<or> array_type d \<noteq> value_type' u
        \<or> (want_out \<and> pool' u (AllocateBytes (int (array_length d) * 4)) \<noteq> None)"
  then show "\<exists>e. fst (Unify d want_out u) = Inl e"
    by (auto simp: Unify_def AllocateBuffer_def)
next
  assume "array_null_count d > 0 \<or> array_type d \<noteq> value_type' u
        \<or> (want_out \<and> pool' u (AllocateBytes (int (array_length d) * 4)) \<noteq> None)"
  then show "snd (Unify d want_out u) = u"
    using Unify_early_failure[of d u want_out] Unify_allocation_failure[of u d]
    by auto
next
  let ?u' = "snd (Unify d want_out u)"
  assume a: "\<not> array_null_count d > 0 \<and> array_type d = value_type' u
        \<and> (want_out \<longrightarrow> pool' u (AllocateBytes (int (array_length d) * 4)) = None)
        \<and> fst (Unify d want_out u) = Inl e"
  then have "\<exists>k<array_length d.
           entries (memo_table' ?u') = entries (memo_table' u) @
             first_seen (filter (\<lambda>y. y \<notin> set (entries (memo_table' u))) (take k (array_values d)))
         \<and> GetOrInsert (pool' u) (GetView d k) (memo_table' ?u') = Inl e
         \<and> pool' ?u' = pool' u \<and> value_type' ?u' = value_type' u"
    by (intro Unify_interner_failure) simp_all
  then obtain k where k: "k < array_length d"
    and en: "entries (memo_table' ?u') = entries (memo_table' u) @
             first_seen (filter (\<lambda>y. y \<notin> set (entries (memo_table' u))) (take k (array_values d)))"
    and fl: "GetOrInsert (pool' u) (GetView d k) (memo_table' ?u') = Inl e"
    and fr: "pool' ?u' = pool' u" "value_type' ?u' = value_type' u"
    by (elim exE conjE)
  have before: "\<forall>j<k. GetView d j \<in> set (entries (memo_table' ?u'))"
  proof (intro allI impI)
    fix j assume j: "j < k"
    with k have "GetView d j \<in> set (take k (array_values d))"
      by (auto simp: GetView_def array_length_def in_set_conv_nth intro!: exI[of _ j])
    then show "GetView d j \<in> set (entries (memo_table' ?u'))"
      unfolding en by (auto simp: set_first_seen)
  qed
  have here: "GetView d k \<notin> set (entries (memo_table' ?u'))"
    using fl by (auto simp: GetOrInsert_def Lookup_None[symmetric] split: option.splits)
  from k fl en before here fr
  show "\<exists>k<array_length d.
             GetOrInsert (pool' u) (GetView d k) (memo_table' ?u') = Inl e
           \<and> entries (memo_table' ?u') = entries (memo_table' u) @
               first_seen (filter (\<lambda>y. y \<notin> set (entries (memo_table' u))) (take k (array_values d)))
           \<and> (\<forall>j<k. GetView d j \<in> set (entries (memo_table' ?u')))
           \<and> GetView d k \<notin> set (entries (memo_table' ?u'))
           \<and> pool' ?u' = pool' u
           \<and> value_type' ?u' = value_type' u"
    by (intro exI[of _ k] conjI)
next
  assume "fst (Unify d want_out u) = Inl e"
  from Unify_error_entries[OF this] obtain new where
    "entries (memo_table' (snd (Unify d want_out u))) = entries (memo_table' u) @ new"
    by blast
  then show "\<forall>v j. Lookup (entries (memo_table' u)) v = Some j
              \<longrightarrow> Lookup (entries (memo_table' (snd (Unify d want_out u)))) v = Some j"
    by (simp add: Lookup_append_Some)
qed

theorem Unify_failure_state_witness:
  "fst (Unify (string_array [''a'', ''b'']) True (make_DictionaryUnifierImpl one_value_pool utf8))
     = Inl OutOfMemory
   \<and> entries (memo_table'
        (snd (Unify (string_array [''a'', ''b'']) True (make_DictionaryUnifierImpl one_value_pool utf8))))
     = [''a'']
   \<and> (\<exists>e. fst (Unify (string_array [''a'', ''b'']\<lparr>array_null_count := 1\<rparr>) True
                (make_DictionaryUnifierImpl one_value_pool utf8)) = Inl e)
   \<and> entries (memo_table'
        (snd (Unify (string_array [''a'', ''b'']\<lparr>array_null_count := 1\<rparr>) True
                (make_DictionaryUnifierImpl one_value_pool utf8))))
     = []"
proof -
  let ?d = "string_array [''a'', ''b'']"
  let ?u = "make_DictionaryUnifierImpl one_value_pool utf8 :: string DictionaryUnifierImpl"
  define T where "T = memo_table' (snd (Unify ?d True ?u))"
  have f: "fst (Unify ?d True ?u) = Inl OutOfMemory"
    by code_simp
  have h: "\<not> array_null_count ?d > 0 \<and> array_type ?d = value_type' ?u
        \<and> (True \<longrightarrow> pool' ?u (AllocateBytes (int (array_length ?d) * 4)) = None)
        \<and> fst (Unify ?d True ?u) = Inl OutOfMemory"
    using f by (simp add: string_array_def make_DictionaryUnifierImpl_def one_value_pool_def)
  from Unify_failure_state[THEN conjunct2, THEN conjunct1, rule_format, OF h]
  obtain k where k: "k < array_length ?d"
    and fl: "GetOrInsert (pool' ?u) (GetView ?d k) T = Inl OutOfMemory"
    and en: "entries T = entries (memo_table' ?u) @
               first_seen (filter (\<lambda>y. y \<notin> set (entries (memo_table' ?u))) (take k (array_values ?d)))"
    unfolding T_def by (elim exE conjE)
  have "k \<noteq> 0"
  proof
    assume "k = 0"
    with en have "entries T = []" by (simp add: make_DictionaryUnifierImpl_def)
    with fl show False
      by (simp add: GetOrInsert_def make_DictionaryUnifierImpl_def one_value_pool_def)
  qed
  with k have "k = 1" by (simp add: array_length_def string_array_def)
  with en have A: "entries (memo_table' (snd (Unify ?d True ?u))) = [''a'']"
    unfolding T_def by (simp add: make_DictionaryUnifierImpl_def string_array_def)
  have n: "array_null_count (?d\<lparr>array_null_count := 1\<rparr>) > 0
           \<or> array_type (?d\<lparr>array_null_count := 1\<rparr>) \<noteq> value_type' ?u
           \<or> (True \<and> pool' ?u (AllocateBytes (int (array_length (?d\<lparr>array_null_count := 1\<rparr>)) * 4)) \<noteq> None)"
    by simp
  from Unify_failure_state[THEN conjunct1, rule_format, OF n]
  have B: "\<exists>e. fst (Unify (?d\<lparr>array_null_count := 1\<rparr>) True ?u) = Inl e"
    and C: "snd (Unify (?d\<lparr>array_null_count := 1\<rparr>) True ?u) = ?u"
    by simp_all
  have "entries (memo_table' (snd (Unify (?d\<lparr>array_null_count := 1\<rparr>) True ?u))) = []"
    unfolding C by (simp add: make_DictionaryUnifierImpl_def)
  with f A B show ?thesis by (intro conjI)
qed

section \<open>Properties of Transpose\<close>

subsection \<open>Integers and bits in buffers\<close>

lemma length_encode_le [simp]: "length (encode_le w v) = w"
  by (induction w arbitrary: v) auto





lemma GetBit_pack_bits:
  assumes "i < length bs"
  shows "GetBit (pack_bits bs) i = bs ! i"
proof -
  have k: "i div 8 < BytesForBits (length bs)"
    using assms by (simp add: BytesForBits_def)
  have "pack_bits bs ! (i div 8) = horner_sum of_bool 2 (take 8 (drop (8 * (i div 8)) bs))"
    using k by (simp add: pack_bits_def)
  moreover have "8 * (i div 8) + i mod 8 = i" by simp
  then have "i mod 8 < length bs - 8 * (i div 8)" using assms by linarith
  then have "i mod 8 < min 8 (length (take 8 (drop (8 * (i div 8)) bs)))"
    by simp
  moreover have "take 8 (drop (8 * (i div 8)) bs) ! (i mod 8) = bs ! i"
    using assms by simp
  ultimately show ?thesis
    by (simp add: GetBit_def bit_horner_sum_bit_word_iff)
qed

lemma length_pack_bits [simp]: "length (pack_bits bs) = BytesForBits (length bs)"
  by (simp add: pack_bits_def)



lemma CopyBitmap_ok:
  assumes "a < length h" "BytesForBits (offset + len) \<le> length (h ! a)"
    and "pool (AllocateBytes (int (BytesForBits len))) = None"
  shows "\<exists>bm. CopyBitmap pool h (Some a) offset len = Inr bm
           \<and> (\<forall>i<len. GetBit bm i = GetBit (h ! a) (offset + i))"
  using assms
  by (simp add: CopyBitmap_def deref_def AllocateBuffer_def GetBit_pack_bits)

subsection \<open>The default path\<close>



lemma IsTrivialTransposition_loop_True:
  assumes "\<forall>i. k \<le> i \<and> i < n \<longrightarrow> i < length tm \<and> sint (tm ! i) = int i"
  shows "IsTrivialTransposition_loop tm n k = Inr True"
  using assms
proof (induction tm n k rule: IsTrivialTransposition_loop.induct)
  case (1 tm n k)
  show ?case
  proof (cases "k < n")
    case False
    then show ?thesis by (simp add: IsTrivialTransposition_loop.simps[of tm n k])
  next
    case True
    with "1.prems" have here: "k < length tm" "sint (tm ! k) = int k" by auto
    have "IsTrivialTransposition_loop tm n (Suc k) = Inr True"
      using "1.prems" True here by (intro "1.IH") auto
    with True here show ?thesis by (simp add: IsTrivialTransposition_loop.simps[of tm n k])
  qed
qed

lemma Transpose_not_dictionary:
  "DataType_id type \<noteq> DICTIONARY \<Longrightarrow>
     Transpose pool h self type dictionary transpose_map = Inl (Status TypeError)"
  by (cases type) (simp_all add: Transpose_def)

lemma Transpose_takes_default_path:
  assumes "data_dictionary self = Some self_dictionary"
    and "(if type_id (index_type (data_type self)) = type_id (index_type out_dict_type)
          then IsTrivialTransposition transpose_map (array_length self_dictionary)
          else Inr False) = Inr False"
  shows "Transpose pool h self (Dictionary out_dict_type) dictionary transpose_map
           = Transpose_default pool h self out_dict_type dictionary transpose_map"
  using assms by (simp add: Transpose_def Let_def dict_type'_def)

lemma c_type_size_other_width:
  "bit_width t \<notin> {8, 16, 32, 64} \<Longrightarrow> c_type_size (type_id t) = None"
  by (cases t) auto

lemma signed_index_type_width:
  assumes "s \<in> {Int8Type, Int16Type, Int32Type, Int64Type}"
    and "t \<in> {Int8Type, Int16Type, Int32Type, Int64Type}"
    and "bit_width s = bit_width t"
  shows "type_id s = type_id t"
  using assms by auto

lemma Transpose_null_bitmap_ok:
  assumes "data_offset self \<noteq> 0 \<longrightarrow>
             pool (AllocateBytes (int (BytesForBits (data_length self)))) = None
             \<and> data_buffers self ! 0 \<noteq> None"
    and "bitmap_readable h self"
  shows "\<exists>r. Transpose_null_bitmap pool (h @ bufs) self = Inr r"
proof (cases "data_offset self = 0")
  case True
  then show ?thesis by (simp add: Transpose_null_bitmap_def)
next
  case False
  with assms(1) obtain a where a: "data_buffers self ! 0 = Some a"
    and pb: "pool (AllocateBytes (int (BytesForBits (data_length self)))) = None" by auto
  from assms(2) a have "a < length (h @ bufs)"
    "BytesForBits (data_offset self + data_length self) \<le> length ((h @ bufs) ! a)"
    by (auto simp: bitmap_readable_def nth_append)
  from CopyBitmap_ok[where h = "h @ bufs" and a = a and offset = "data_offset self"
         and len = "data_length self" and pool = pool, OF this pb]
  obtain bm where "CopyBitmap pool (h @ bufs) (Some a) (data_offset self) (data_length self) = Inr bm"
    by blast
  with False a show ?thesis
    by (simp add: Transpose_null_bitmap_def null_bitmap_data'_def)
qed

lemma Transpose_default_NotImplemented:
  assumes "pool (AllocateBytes (int (data_length self) * bit_width (index_type out_dict_type) * CHAR_BIT)) = None"
    and "\<And>bufs. \<exists>r. Transpose_null_bitmap pool (h @ bufs) self = Inr r"
    and "c_type_size (type_id (index_type (data_type self))) = None
         \<or> c_type_size (type_id (index_type out_dict_type)) = None"
  shows "Transpose_default pool h self out_dict_type dictionary transpose_map
           = Inl (Status NotImplemented)"
proof -
  define buf :: Buffer where
    "buf = replicate (nat (int (data_length self) * bit_width (index_type out_dict_type) * CHAR_BIT)) 0"
  from assms(2)[of "[buf]"] obtain nb h2 where
    nb: "Transpose_null_bitmap pool (h @ [buf]) self = Inr (nb, h2)" by auto
  have alloc: "AllocateBuffer pool (int (data_length self) * bit_width (index_type out_dict_type) * CHAR_BIT)
                 = Inr buf"
    using assms(1) by (simp add: AllocateBuffer_def buf_def)
  from assms(3) show ?thesis
    unfolding Transpose_default_def Let_def alloc dict_type'_def
    by (auto simp: nb split: option.splits)
qed

section \<open>The claims about Transpose\<close>

subsection \<open>C2: the default path\<close>





subsection \<open>C3: the trivial transposition\<close>

text \<open>
  C3: for every source array and target type whose index types are signed integers of
  8, 16, 32 or 64 bits and of the same width (the source then compares equal type ids),
  and every \<open>transpose_map\<close> with \<open>transpose_map[i] = i\<close> for all \<open>i\<close> below the length of
  the source's dictionary, \<^verbatim>\<open>Transpose\<close> allocates nothing (the heap is returned as it
  was) and returns an array with \<^verbatim>\<open>buffers[0]\<close> and \<^verbatim>\<open>buffers[1]\<close> of the source, its
  length, offset and null count, the target type and the given dictionary.
\<close>

theorem Transpose_trivial_transposition:
  assumes "data_dictionary self = Some self_dictionary"
    and "index_type (data_type self) \<in> {Int8Type, Int16Type, Int32Type, Int64Type}"
    and "index_type out_dict_type \<in> {Int8Type, Int16Type, Int32Type, Int64Type}"
    and "bit_width (index_type (data_type self)) = bit_width (index_type out_dict_type)"
    and "array_length self_dictionary \<le> length transpose_map"
    and "\<forall>i<array_length self_dictionary. sint (transpose_map ! i) = int i"
  shows "\<exists>out. Transpose pool h self (Dictionary out_dict_type) dictionary transpose_map = Inr (out, h)
         \<and> data_buffers out = [data_buffers self ! 0, data_buffers self ! 1]
         \<and> data_length out = data_length self \<and> data_offset out = data_offset self
         \<and> data_null_count out = data_null_count self
         \<and> data_type out = out_dict_type \<and> data_dictionary out = Some dictionary"
proof -
  have ids: "type_id (index_type (data_type self)) = type_id (index_type out_dict_type)"
    by (rule signed_index_type_width[OF assms(2,3,4)])
  have "IsTrivialTransposition transpose_map (array_length self_dictionary) = Inr True"
    unfolding IsTrivialTransposition_def
    using assms(5,6) by (intro IsTrivialTransposition_loop_True) auto
  with ids assms(1) show ?thesis
    by (simp add: Transpose_def Let_def dict_type'_def ArrayData_Make_def)
qed

theorem Transpose_trivial_transposition_witness:
  "\<exists>out. Transpose default_memory_pool example_heap example_array
            (Dictionary (DictionaryType Int8Type utf8)) (string_array [''b'', ''a'', ''c'', ''d''])
            [0, 1, 2] = Inr (out, example_heap)
     \<and> data_buffers out = [Some 0, Some 1] \<and> data_length out = 3 \<and> data_offset out = 1
     \<and> data_null_count out = 1"
proof -
  have 1: "data_dictionary example_array = Some (string_array [''b'', ''a'', ''c''])"
    by (simp add: example_array_def)
  have 2: "index_type (data_type example_array) \<in> {Int8Type, Int16Type, Int32Type, Int64Type}"
    by (simp add: example_array_def)
  have 3: "index_type (DictionaryType Int8Type utf8) \<in> {Int8Type, Int16Type, Int32Type, Int64Type}"
    by simp
  have 4: "bit_width (index_type (data_type example_array))
             = bit_width (index_type (DictionaryType Int8Type utf8))"
    by (simp add: example_array_def)
  have 5: "array_length (string_array [''b'', ''a'', ''c'']) \<le> length [0, 1, 2 :: 32 word]"
    by (simp add: array_length_def string_array_def)
  have 6: "\<forall>i<array_length (string_array [''b'', ''a'', ''c'']). sint ([0, 1, 2 :: 32 word] ! i) = int i"
    by (auto simp: array_length_def string_array_def less_Suc_eq numeral_3_eq_3)
  from Transpose_trivial_transposition[OF 1 2 3 4 5 6,
         of default_memory_pool example_heap "string_array [''b'', ''a'', ''c'', ''d'']"]
  obtain out where
    "Transpose default_memory_pool example_heap example_array
       (Dictionary (DictionaryType Int8Type utf8)) (string_array [''b'', ''a'', ''c'', ''d''])
       [0, 1, 2] = Inr (out, example_heap)"
    "data_buffers out = [data_buffers example_array ! 0, data_buffers example_array ! 1]"
    "data_length out = data_length example_array" "data_offset out = data_offset example_array"
    "data_null_count out = data_null_count example_array"
    by (elim exE conjE)
  then show ?thesis
    by (intro exI[of _ out]) (simp add: example_array_def)
qed

subsection \<open>C6: the size of the indices buffer\<close>

text \<open>
  C6 at a concrete input: for the array of length 3 and the target index type int16, the
  default path allocates the indices buffer (at address 2 of the new heap) with
  \<open>3 * 16 * CHAR_BIT = 384\<close> bytes, where \<open>length * out_width\<close> bits are 48 bits, 6 bytes.
  The other buffers are the source's bitmap (1 byte) and indices (4 bytes) and the copied
  bitmap (1 byte).
\<close>

theorem Transpose_indices_buffer_size_at_example:
  "map_sum id (\<lambda>(out, h'). (data_buffers out ! 1, map length h'))
     (Transpose default_memory_pool example_heap example_array
        (Dictionary (DictionaryType Int16Type utf8)) (string_array [''a'', ''b'', ''c'', ''d''])
        [1, 0, 2])
   = Inr (Some 2, [1, 4, 384, 1])"
  by code_simp

subsection \<open>C8: the failures of Transpose\<close>

text \<open>
  C8 as stated fails: with a source and a target index type of one bit each (the same
  type id) and an identity map, \<^verbatim>\<open>Transpose\<close> takes the fast path and succeeds; the
  dispatch that returns \<^verbatim>\<open>NotImplemented\<close> is never reached.
\<close>

theorem Transpose_fast_path_before_dispatch_counterexample:
  "bit_width (OtherFixedWidthType 1 1) \<notin> {8, 16, 32, 64}
   \<and> Transpose default_memory_pool [[5]]
        \<lparr>data_type = DictionaryType (OtherFixedWidthType 1 1) utf8, data_length = 3,
         data_buffers = [None, Some 0], data_null_count = 0, data_offset = 0,
         data_dictionary = Some (string_array [''b'', ''a'', ''c''])\<rparr>
        (Dictionary (DictionaryType (OtherFixedWidthType 1 1) utf8))
        (string_array [''b'', ''a'', ''c'', ''d'']) [0, 1, 2]
     = Inr (\<lparr>data_type = DictionaryType (OtherFixedWidthType 1 1) utf8, data_length = 3,
             data_buffers = [None, Some 0], data_null_count = 0, data_offset = 0,
             data_dictionary = Some (string_array [''b'', ''a'', ''c'', ''d''])\<rparr>, [[5]])"
  by code_simp

text \<open>
  C8 (amended): \<^verbatim>\<open>Transpose\<close> fails with \<^verbatim>\<open>TypeError\<close> for every call whose target type
  is not a dictionary type. For a dictionary target type, a call that does not take the
  fast path, whose indices buffer the pool grants and whose null bitmap is reused or
  copied without failure, fails with \<^verbatim>\<open>NotImplemented\<close> whenever the source or the
  target index width lies outside 8, 16, 32, 64 bits.
\<close>

theorem Transpose_failures:
  "(DataType_id type \<noteq> DICTIONARY \<longrightarrow>
      Transpose pool h self type dictionary transpose_map = Inl (Status TypeError))
   \<and> (data_dictionary self = Some self_dictionary
      \<and> (if type_id (index_type (data_type self)) = type_id (index_type out_dict_type)
          then IsTrivialTransposition transpose_map (array_length self_dictionary)
          else Inr False) = Inr False
      \<and> pool (AllocateBytes (int (data_length self) * bit_width (index_type out_dict_type) * CHAR_BIT)) = None
      \<and> (data_offset self \<noteq> 0 \<longrightarrow>
           pool (AllocateBytes (int (BytesForBits (data_length self)))) = None
           \<and> data_buffers self ! 0 \<noteq> None)
      \<and> bitmap_readable h self
      \<and> (bit_width (index_type (data_type self)) \<notin> {8, 16, 32, 64}
           \<or> bit_width (index_type out_dict_type) \<notin> {8, 16, 32, 64})
      \<longrightarrow> Transpose pool h self (Dictionary out_dict_type) dictionary transpose_map
            = Inl (Status NotImplemented))"
proof (intro conjI impI)
  assume "DataType_id type \<noteq> DICTIONARY"
  then show "Transpose pool h self type dictionary transpose_map = Inl (Status TypeError)"
    by (rule Transpose_not_dictionary)
next
  assume a: "data_dictionary self = Some self_dictionary
      \<and> (if type_id (index_type (data_type self)) = type_id (index_type out_dict_type)
          then IsTrivialTransposition transpose_map (array_length self_dictionary)
          else Inr False) = Inr False
      \<and> pool (AllocateBytes (int (data_length self) * bit_width (index_type out_dict_type) * CHAR_BIT)) = None
      \<and> (data_offset self \<noteq> 0 \<longrightarrow>
           pool (AllocateBytes (int (BytesForBits (data_length self)))) = None
           \<and> data_buffers self ! 0 \<noteq> None)
      \<and> bitmap_readable h self
      \<and> (bit_width (index_type (data_type self)) \<notin> {8, 16, 32, 64}
           \<or> bit_width (index_type out_dict_type) \<notin> {8, 16, 32, 64})"
  then have path: "Transpose pool h self (Dictionary out_dict_type) dictionary transpose_map
           = Transpose_default pool h self out_dict_type dictionary transpose_map"
    by (intro Transpose_takes_default_path[OF a[THEN conjunct1] a[THEN conjunct2, THEN conjunct1]])
  from a have "bit_width (index_type (data_type self)) \<notin> {8, 16, 32, 64}
           \<or> bit_width (index_type out_dict_type) \<notin> {8, 16, 32, 64}"
    by (elim conjE)
  then have w: "c_type_size (type_id (index_type (data_type self))) = None
         \<or> c_type_size (type_id (index_type out_dict_type)) = None"
  proof
    assume "bit_width (index_type (data_type self)) \<notin> {8, 16, 32, 64}"
    from c_type_size_other_width[OF this] show ?thesis by (rule disjI1)
  next
    assume "bit_width (index_type out_dict_type) \<notin> {8, 16, 32, 64}"
    from c_type_size_other_width[OF this] show ?thesis by (rule disjI2)
  qed
  from a have nb: "\<And>bufs. \<exists>r. Transpose_null_bitmap pool (h @ bufs) self = Inr r"
    by (intro Transpose_null_bitmap_ok) (elim conjE, assumption)+
  from a have al: "pool (AllocateBytes (int (data_length self) * bit_width (index_type out_dict_type) * CHAR_BIT)) = None"
    by (elim conjE)
  show "Transpose pool h self (Dictionary out_dict_type) dictionary transpose_map
            = Inl (Status NotImplemented)"
    unfolding path by (rule Transpose_default_NotImplemented[OF al nb w])
qed

theorem Transpose_failures_witness:
  "Transpose default_memory_pool example_heap example_array utf8
      (string_array [''a'', ''b'', ''c'', ''d'']) [1, 0, 2] = Inl (Status TypeError)
   \<and> Transpose default_memory_pool example_heap example_array
        (Dictionary (DictionaryType (OtherFixedWidthType 1 1) utf8))
        (string_array [''a'', ''b'', ''c'', ''d'']) [1, 0, 2] = Inl (Status NotImplemented)"
proof -
  let ?t = "DictionaryType (OtherFixedWidthType 1 1) utf8"
  have 1: "DataType_id utf8 \<noteq> DICTIONARY"
    by (simp add: utf8_def)
  have 2: "data_dictionary example_array = Some (string_array [''b'', ''a'', ''c''])
      \<and> (if type_id (index_type (data_type example_array)) = type_id (index_type ?t)
          then IsTrivialTransposition [1, 0, 2] (array_length (string_array [''b'', ''a'', ''c'']))
          else Inr False) = Inr False
      \<and> default_memory_pool
           (AllocateBytes (int (data_length example_array) * bit_width (index_type ?t) * CHAR_BIT)) = None
      \<and> (data_offset example_array \<noteq> 0 \<longrightarrow>
           default_memory_pool (AllocateBytes (int (BytesForBits (data_length example_array)))) = None
           \<and> data_buffers example_array ! 0 \<noteq> None)
      \<and> bitmap_readable example_heap example_array
      \<and> (bit_width (index_type (data_type example_array)) \<notin> {8, 16, 32, 64}
           \<or> bit_width (index_type ?t) \<notin> {8, 16, 32, 64})"
  proof -
    have "bitmap_readable example_heap example_array" by code_simp
    then show ?thesis by (simp add: example_array_def default_memory_pool_def)
  qed
  from Transpose_failures[THEN conjunct1, rule_format, OF 1]
       Transpose_failures[THEN conjunct2, rule_format, OF 2]
  show ?thesis by blast
qed

subsection \<open>C10: an offset without a null bitmap\<close>

text \<open>
  C10: when the source's offset is not zero, the default path passes
  \<^verbatim>\<open>null_bitmap_data_\<close> to \<^verbatim>\<open>CopyBitmap\<close> without a test. For a source with a non-zero
  offset and no null bitmap the pointer is null, the copy of the bitmap reads through
  it, and \<^verbatim>\<open>Transpose\<close>, once on the default path with its indices buffer granted, ends
  there.
\<close>

theorem Transpose_offset_without_null_bitmap:
  assumes "data_offset self \<noteq> 0" and "data_buffers self ! 0 = None"
    and "data_dictionary self = Some self_dictionary"
    and "(if type_id (index_type (data_type self)) = type_id (index_type out_dict_type)
          then IsTrivialTransposition transpose_map (array_length self_dictionary)
          else Inr False) = Inr False"
    and "pool (AllocateBytes (int (data_length self) * bit_width (index_type out_dict_type) * CHAR_BIT)) = None"
  shows "CopyBitmap pool hb (null_bitmap_data' self) (data_offset self) (data_length self)
           = Inl NullPointer
         \<and> Transpose_null_bitmap pool hb self = Inl NullPointer
         \<and> Transpose pool h self (Dictionary out_dict_type) dictionary transpose_map = Inl NullPointer"
proof -
  have cb: "\<And>h1. CopyBitmap pool h1 (null_bitmap_data' self) (data_offset self) (data_length self)
                 = Inl NullPointer"
    using assms(2) by (simp add: CopyBitmap_def deref_def null_bitmap_data'_def)
  have nb: "\<And>h1. Transpose_null_bitmap pool h1 self = Inl NullPointer"
    using assms(1) by (simp add: Transpose_null_bitmap_def cb)
  have "Transpose_default pool h self out_dict_type dictionary transpose_map = Inl NullPointer"
    using assms(5) by (simp add: Transpose_default_def Let_def AllocateBuffer_def nb)
  then show ?thesis
    using cb nb Transpose_takes_default_path[OF assms(3,4)] by simp
qed

theorem Transpose_offset_without_null_bitmap_witness:
  "Transpose default_memory_pool example_heap (example_array\<lparr>data_buffers := [None, Some 1]\<rparr>)
      (Dictionary (DictionaryType Int16Type utf8)) (string_array [''a'', ''b'', ''c'', ''d''])
      [1, 0, 2] = Inl NullPointer"
proof -
  let ?a = "example_array\<lparr>data_buffers := [None, Some 1]\<rparr>"
  let ?t = "DictionaryType Int16Type utf8"
  have 1: "data_offset ?a \<noteq> 0" by (simp add: example_array_def)
  have 2: "data_buffers ?a ! 0 = None" by simp
  have 3: "data_dictionary ?a = Some (string_array [''b'', ''a'', ''c''])"
    by (simp add: example_array_def)
  have 4: "(if type_id (index_type (data_type ?a)) = type_id (index_type ?t)
            then IsTrivialTransposition [1, 0, 2] (array_length (string_array [''b'', ''a'', ''c'']))
            else Inr False) = Inr False"
    by (simp add: example_array_def)
  have 5: "default_memory_pool
             (AllocateBytes (int (data_length ?a) * bit_width (index_type ?t) * CHAR_BIT)) = None"
    by (simp add: default_memory_pool_def)
  from Transpose_offset_without_null_bitmap
         [where self = "?a" and out_dict_type = "?t" and pool = default_memory_pool
            and transpose_map = "[1, 0, 2]" and h = example_heap and hb = example_heap
            and dictionary = "string_array [''a'', ''b'', ''c'', ''d'']", OF 1 2 3 4 5]
  show ?thesis by simp
qed

end
